theory Spec2Isabelle
  imports Complex_Main "HOL-Library.Multiset" "HOL-Library.List_Lexorder" "HOL-Library.Char_ord"
begin

section \<open>Data model (src/types.ts)\<close>

text \<open>
  A TypeScript \<^verbatim>\<open>string\<close> is a \<^typ>\<open>string\<close>, one \<^typ>\<open>char\<close> per code unit below 256;
  texts with code units above 255 are outside the model. A \<^verbatim>\<open>number\<close> that holds a
  line number or a count is a \<^typ>\<open>nat\<close> (the parser only builds them from digit strings
  and increments; values above \<open>2^53\<close> are outside the model). A \<^verbatim>\<open>number\<close> that holds
  a weight, a credit or a penalty is a \<^typ>\<open>real\<close>: the sums of the pattern score are
  read as exact arithmetic, not as IEEE-754 doubles.
\<close>

datatype DetectionStatus =
  CORRECT | MISSING | INCORRECT | UNNECESSARY | FILE_MISSING | NOT_APPLICABLE

record DiffLine =
  lineNumber :: nat
  content :: string

record DiffHunk =
  oldStart :: nat
  oldCount :: nat
  newStart :: nat
  newCount :: nat
  hlines :: "string list"  \<comment> \<open>field \<^verbatim>\<open>lines\<close>\<close>

record FileDiff =
  filePath :: string
  oldPath :: "string option"
  addedLines :: "DiffLine list"
  removedLines :: "DiffLine list"
  hunks :: "DiffHunk list"
  isBinary :: bool
  isRenamed :: bool

record DetectionResult =
  patternId :: string
  status :: DetectionStatus
  message :: string
  details :: "string list option"

record MatchedPair =
  golden :: FileDiff
  migration :: FileDiff

record MatchResult =
  matched :: "MatchedPair list"
  missedFiles :: "FileDiff list"
  extraFiles :: "FileDiff list"

datatype NoiseType =
  unnecessary_change | formatting_only | incorrect_migration | artifact | placeholder_token

record NoiseInstance =
  ntype :: NoiseType  \<comment> \<open>field \<^verbatim>\<open>type\<close>\<close>
  nfile :: string  \<comment> \<open>field \<^verbatim>\<open>file\<close>\<close>
  nline :: "nat option"  \<comment> \<open>field \<^verbatim>\<open>line\<close>\<close>
  description :: string
  penalty :: real


section \<open>Scoring engine (scoring/engine.ts)\<close>

record WeightedDetectionResult =
  result :: DetectionResult
  weight :: real

text \<open>The table \<^verbatim>\<open>CREDIT\<close> is partial: it has no entry for \<^verbatim>\<open>UNNECESSARY\<close> and
  \<^verbatim>\<open>NOT_APPLICABLE\<close>.\<close>

fun CREDIT :: "DetectionStatus \<Rightarrow> real option" where
  "CREDIT CORRECT = Some 1"
| "CREDIT INCORRECT = Some (25 / 100)"
| "CREDIT MISSING = Some 0"
| "CREDIT FILE_MISSING = Some 0"
| "CREDIT UNNECESSARY = None"
| "CREDIT NOT_APPLICABLE = None"

text \<open>The loop of \<^verbatim>\<open>computePatternScore\<close>, carrying
  \<^verbatim>\<open>(weightedCredit, weightedExpected)\<close>.\<close>

fun patternLoop :: "WeightedDetectionResult list \<Rightarrow> real \<times> real \<Rightarrow> real \<times> real" where
  "patternLoop [] acc = acc"
| "patternLoop (r # rs) (weightedCredit, weightedExpected) =
     (if status (result r) = NOT_APPLICABLE
      then patternLoop rs (weightedCredit, weightedExpected)
      else (let credit = (case CREDIT (status (result r)) of Some c \<Rightarrow> c | None \<Rightarrow> 0)
            in patternLoop rs
                 (weightedCredit + weight r * credit, weightedExpected + weight r * 1)))"

definition computePatternScore :: "WeightedDetectionResult list \<Rightarrow> real" where
  "computePatternScore results =
     (case patternLoop results (0, 0) of
        (weightedCredit, weightedExpected) \<Rightarrow>
          if weightedExpected = 0 then 1 else weightedCredit / weightedExpected)"

text \<open>The credit the engine gives a graded outcome, and the two sums of the formula.\<close>

definition credit_of :: "DetectionStatus \<Rightarrow> real" where
  "credit_of s = (case CREDIT s of Some c \<Rightarrow> c | None \<Rightarrow> 0)"

definition graded :: "WeightedDetectionResult list \<Rightarrow> WeightedDetectionResult list" where
  "graded rs = filter (\<lambda>r. status (result r) \<noteq> NOT_APPLICABLE) rs"

definition creditSum :: "WeightedDetectionResult list \<Rightarrow> real" where
  "creditSum rs = (\<Sum>r\<leftarrow>graded rs. weight r * credit_of (status (result r)))"

definition weightSum :: "WeightedDetectionResult list \<Rightarrow> real" where
  "weightSum rs = (\<Sum>r\<leftarrow>graded rs. weight r)"

definition outcome :: "DetectionStatus \<Rightarrow> real \<Rightarrow> WeightedDetectionResult" where
  "outcome s w =
     \<lparr> result = \<lparr> patternId = ''p'', status = s, message = ''m'', details = None \<rparr>,
       weight = w \<rparr>"





section \<open>String operations of the runtime\<close>

definition startsWith :: "string \<Rightarrow> string \<Rightarrow> bool" where
  "startsWith s p = (take (length p) s = p)"

definition endsWith :: "string \<Rightarrow> string \<Rightarrow> bool" where
  "endsWith s p = (length p \<le> length s \<and> drop (length s - length p) s = p)"

text \<open>\<^verbatim>\<open>s.includes(p)\<close> and \<^verbatim>\<open>s.indexOf(p)\<close> (\<open>None\<close> for \<open>-1\<close>).\<close>

fun includes_str :: "string \<Rightarrow> string \<Rightarrow> bool" where
  "includes_str [] p = (p = [])"
| "includes_str (c # cs) p = (startsWith (c # cs) p \<or> includes_str cs p)"

fun indexOf :: "string \<Rightarrow> string \<Rightarrow> nat option" where
  "indexOf [] p = (if p = [] then Some 0 else None)"
| "indexOf (c # cs) p =
     (if startsWith (c # cs) p then Some 0 else map_option Suc (indexOf cs p))"

text \<open>\<^verbatim>\<open>s.split(sep)\<close> for a separator of one character: never the empty list.\<close>

fun split_on :: "char \<Rightarrow> string \<Rightarrow> string list" where
  "split_on sep [] = [[]]"
| "split_on sep (c # cs) =
     (if c = sep then [] # split_on sep cs
      else (case split_on sep cs of
              x # xs \<Rightarrow> (c # x) # xs
            | [] \<Rightarrow> [[c]]))"

definition newline :: char where
  "newline = CHR 0x0A"

fun join_on :: "char \<Rightarrow> string list \<Rightarrow> string" where
  "join_on sep [] = []"
| "join_on sep [x] = x"
| "join_on sep (x # y # ys) = x @ sep # join_on sep (y # ys)"

text \<open>The class \<^verbatim>\<open>\s\<close> and the characters \<^verbatim>\<open>trim\<close> strips, among the code units below
  256: tab, line feed, vertical tab, form feed, carriage return, space, no-break space.\<close>

definition isSpace :: "char \<Rightarrow> bool" where
  "isSpace c = (c = CHR 0x09 \<or> c = CHR 0x0A \<or> c = CHR 0x0B \<or> c = CHR 0x0C
                \<or> c = CHR 0x0D \<or> c = CHR 0x20 \<or> c = CHR 0xA0)"

definition trim :: "string \<Rightarrow> string" where
  "trim s = rev (dropWhile isSpace (rev (dropWhile isSpace s)))"

text \<open>The class \<^verbatim>\<open>\d\<close>, and \<^verbatim>\<open>parseInt(ds, 10)\<close> on a string of digits.\<close>

definition isDigit :: "char \<Rightarrow> bool" where
  "isDigit c = (c \<in> set ''0123456789'')"

definition parseInt :: "string \<Rightarrow> nat" where
  "parseInt ds = foldl (\<lambda>n c. 10 * n + (of_char c - 48)) 0 ds"

text \<open>\<^verbatim>\<open>s.replace(p, r)\<close> with a string pattern: the first occurrence only.\<close>

fun replaceFirst :: "string \<Rightarrow> string \<Rightarrow> string \<Rightarrow> string" where
  "replaceFirst [] p r = (if p = [] then r else [])"
| "replaceFirst (c # cs) p r =
     (if startsWith (c # cs) p then r @ drop (length p) (c # cs)
      else c # replaceFirst cs p r)"


section \<open>Diff parser (input/diff-parser.ts)\<close>

text \<open>\<^verbatim>\<open>(\d+)\<close>: the longest run of digits, which must not be empty.\<close>

definition digits :: "string \<Rightarrow> (string \<times> string) option" where
  "digits s =
     (if takeWhile isDigit s = [] then None
      else Some (takeWhile isDigit s, dropWhile isDigit s))"

text \<open>\<^verbatim>\<open>(?:,(\d+))?\<close>: the count and the rest, or no count and the whole string.\<close>

definition optCount :: "string \<Rightarrow> nat option \<times> string" where
  "optCount s =
     (case s of
        [] \<Rightarrow> (None, s)
      | c # r \<Rightarrow>
          if c = CHR '','' then
            (case digits r of
               Some (ds, r') \<Rightarrow> (Some (parseInt ds), r')
             | None \<Rightarrow> (None, s))
          else (None, s))"

text \<open>The match of \<^verbatim>\<open>/^@@ -(\d+)(?:,(\d+))? \+(\d+)(?:,(\d+))? @@/\<close>: groups 1 to 4, parsed.
  After a greedy run of digits the next character decides, so the match is deterministic.\<close>

definition hunkMatch :: "string \<Rightarrow> (nat \<times> nat option \<times> nat \<times> nat option) option" where
  "hunkMatch l =
     (if \<not> startsWith l ''@@ -'' then None
      else case digits (drop 4 l) of
             None \<Rightarrow> None
           | Some (d1, r1) \<Rightarrow>
               (case optCount r1 of
                  (c1, r2) \<Rightarrow>
                    if \<not> startsWith r2 '' +'' then None
                    else case digits (drop 2 r2) of
                           None \<Rightarrow> None
                         | Some (d3, r3) \<Rightarrow>
                             (case optCount r3 of
                                (c2, r4) \<Rightarrow>
                                  if startsWith r4 '' @@''
                                  then Some (parseInt d1, c1, parseInt d3, c2)
                                  else None)))"

definition noNewlineMarker :: string where
  "noNewlineMarker = CHR 0x5C # '' No newline at end of file''"

definition stripABPrefix :: "string \<Rightarrow> string" where
  "stripABPrefix path =
     (if startsWith path ''a/'' \<or> startsWith path ''b/'' then drop 2 path else path)"

text \<open>\<^verbatim>\<open>parseGitDiffPaths\<close> returns \<^verbatim>\<open>{oldPath, newPath}\<close>, here a pair.\<close>

definition parseGitDiffPaths :: "string \<Rightarrow> string \<times> string" where
  "parseGitDiffPaths gitDiffLine =
     (let withoutPrefix = drop (length ''diff --git '') gitDiffLine
      in case indexOf withoutPrefix '' b/'' of
           None \<Rightarrow>
             (let parts = split_on CHR '' '' withoutPrefix
              in (stripABPrefix (hd parts), stripABPrefix (last parts)))
         | Some bIndex \<Rightarrow>
             (stripABPrefix (take bIndex withoutPrefix),
              stripABPrefix (drop (bIndex + 1) withoutPrefix)))"

text \<open>The first loop of \<^verbatim>\<open>parseFileChunk\<close>, carrying \<^verbatim>\<open>(hunks, currentHunk)\<close>.\<close>

fun collectHunks ::
  "string list \<Rightarrow> DiffHunk list \<times> DiffHunk option \<Rightarrow> DiffHunk list \<times> DiffHunk option" where
  "collectHunks [] st = st"
| "collectHunks (l # ls) (hs, currentHunk) =
     (case hunkMatch l of
        Some (os, oc, ns, nc) \<Rightarrow>
          collectHunks ls
            ((case currentHunk of Some h \<Rightarrow> hs @ [h] | None \<Rightarrow> hs),
             Some \<lparr> oldStart = os,
                    oldCount = (case oc of Some c \<Rightarrow> c | None \<Rightarrow> 1),
                    newStart = ns,
                    newCount = (case nc of Some c \<Rightarrow> c | None \<Rightarrow> 1),
                    hlines = [l] \<rparr>)
      | None \<Rightarrow>
          (case currentHunk of
             None \<Rightarrow> collectHunks ls (hs, None)
           | Some h \<Rightarrow>
               if startsWith l ''+'' \<and> \<not> startsWith l ''+++''
               then collectHunks ls (hs, Some (h\<lparr>hlines := hlines h @ [l]\<rparr>))
               else if startsWith l ''-'' \<and> \<not> startsWith l ''---''
               then collectHunks ls (hs, Some (h\<lparr>hlines := hlines h @ [l]\<rparr>))
               else if startsWith l '' ''
               then collectHunks ls (hs, Some (h\<lparr>hlines := hlines h @ [l]\<rparr>))
               else if l = noNewlineMarker
               then collectHunks ls (hs, Some (h\<lparr>hlines := hlines h @ [l]\<rparr>))
               else collectHunks ls (hs, Some h)))"

definition parseHunks :: "string list \<Rightarrow> DiffHunk list" where
  "parseHunks ls =
     (case collectHunks ls ([], None) of
        (hs, Some h) \<Rightarrow> hs @ [h]
      | (hs, None) \<Rightarrow> hs)"

text \<open>The inner loop of the second pass, carrying
  \<^verbatim>\<open>(oldLineNum, newLineNum, addedLines, removedLines)\<close>.\<close>

fun extractLines ::
  "string list \<Rightarrow> nat \<times> nat \<times> DiffLine list \<times> DiffLine list
     \<Rightarrow> nat \<times> nat \<times> DiffLine list \<times> DiffLine list" where
  "extractLines [] st = st"
| "extractLines (l # ls) (oldLineNum, newLineNum, added, removed) =
     (if startsWith l ''@@'' then extractLines ls (oldLineNum, newLineNum, added, removed)
      else if l = noNewlineMarker
      then extractLines ls (oldLineNum, newLineNum, added, removed)
      else if startsWith l ''+''
      then extractLines ls
             (oldLineNum, newLineNum + 1,
              added @ [\<lparr> lineNumber = newLineNum, content = drop 1 l \<rparr>], removed)
      else if startsWith l ''-''
      then extractLines ls
             (oldLineNum + 1, newLineNum,
              added, removed @ [\<lparr> lineNumber = oldLineNum, content = drop 1 l \<rparr>])
      else if startsWith l '' ''
      then extractLines ls (oldLineNum + 1, newLineNum + 1, added, removed)
      else extractLines ls (oldLineNum, newLineNum, added, removed))"

text \<open>The outer loop of the second pass, over the hunks.\<close>

fun extractHunks ::
  "DiffHunk list \<Rightarrow> DiffLine list \<times> DiffLine list \<Rightarrow> DiffLine list \<times> DiffLine list" where
  "extractHunks [] acc = acc"
| "extractHunks (h # hs) (added, removed) =
     (case extractLines (hlines h) (oldStart h, newStart h, added, removed) of
        (_, _, added', removed') \<Rightarrow> extractHunks hs (added', removed'))"

definition parseFileChunk :: "string \<Rightarrow> FileDiff option" where
  "parseFileChunk chunk =
     (let ls = split_on newline chunk
      in case find (\<lambda>l. startsWith l ''diff --git '') ls of
           None \<Rightarrow> None
         | Some gitDiffLine \<Rightarrow>
             if list_ex (\<lambda>l. startsWith l ''Binary files '' \<or> includes_str l ''GIT binary patch'') ls
             then (case parseGitDiffPaths gitDiffLine of
                     (oldP, newP) \<Rightarrow>
                       Some \<lparr> filePath = newP,
                              oldPath = (if oldP \<noteq> newP then Some oldP else None),
                              addedLines = [], removedLines = [], hunks = [],
                              isBinary = True, isRenamed = (oldP \<noteq> newP) \<rparr>)
             else
               (let renameLine = find (\<lambda>l. startsWith l ''rename from '') ls;
                    renameToLine = find (\<lambda>l. startsWith l ''rename to '') ls;
                    renamed = (renameLine \<noteq> None \<and> renameToLine \<noteq> None);
                    minusLine = find (\<lambda>l. startsWith l ''--- '') ls;
                    plusLine = find (\<lambda>l. startsWith l ''+++ '') ls;
                    fpath =
                      (if renamed then replaceFirst (the renameToLine) ''rename to '' []
                       else if plusLine \<noteq> None \<and> plusLine \<noteq> Some ''+++ /dev/null''
                       then stripABPrefix (drop 4 (the plusLine))
                       else if minusLine \<noteq> None \<and> minusLine \<noteq> Some ''--- /dev/null''
                       then stripABPrefix (drop 4 (the minusLine))
                       else snd (parseGitDiffPaths gitDiffLine));
                    opath =
                      (if renamed then Some (replaceFirst (the renameLine) ''rename from '' [])
                       else if minusLine \<noteq> None \<and> minusLine \<noteq> Some ''--- /dev/null''
                       then (let minusPath = stripABPrefix (drop 4 (the minusLine))
                             in if minusPath \<noteq> fpath then Some minusPath else None)
                       else None);
                    hs = parseHunks ls
                in case extractHunks hs ([], []) of
                     (added, removed) \<Rightarrow>
                       Some \<lparr> filePath = fpath, oldPath = opath,
                              addedLines = added, removedLines = removed, hunks = hs,
                              isBinary = False, isRenamed = renamed \<rparr>))"

text \<open>The loop of \<^verbatim>\<open>splitIntoFileChunks\<close>, carrying \<^verbatim>\<open>(chunks, currentChunk)\<close>.\<close>

fun chunkLoop ::
  "string list \<Rightarrow> string list \<times> string list \<Rightarrow> string list \<times> string list" where
  "chunkLoop [] st = st"
| "chunkLoop (l # ls) (chunks, currentChunk) =
     (if startsWith l ''diff --git '' \<and> currentChunk \<noteq> []
      then chunkLoop ls (chunks @ [join_on newline currentChunk], [l])
      else chunkLoop ls (chunks, currentChunk @ [l]))"

definition splitIntoFileChunks :: "string \<Rightarrow> string list" where
  "splitIntoFileChunks diffText =
     (case chunkLoop (split_on newline diffText) ([], []) of
        (chunks, currentChunk) \<Rightarrow>
          if currentChunk \<noteq> [] then chunks @ [join_on newline currentChunk] else chunks)"

definition parseDiff :: "string \<Rightarrow> FileDiff list" where
  "parseDiff diffText =
     (if trim diffText = [] then []
      else List.map_filter parseFileChunk (splitIntoFileChunks diffText))"

definition scenarioA :: string where
  "scenarioA = ''diff --git a/f b/f'' @ [newline] @ ''--- a/f'' @ [newline] @ ''+++ b/f''
     @ [newline] @ ''@@ -1,2 +1,2 @@'' @ [newline] @ ''-old'' @ [newline] @ ''+new''
     @ [newline] @ '' unchanged'' @ [newline]"


text \<open>The hunks when the first pass ends: the current hunk, if any, is pushed last.\<close>

definition finish :: "DiffHunk list \<times> DiffHunk option \<Rightarrow> DiffHunk list" where
  "finish st = (case st of (hs, Some h) \<Rightarrow> hs @ [h] | (hs, None) \<Rightarrow> hs)"

text \<open>The first of the raw lines of a hunk is its header line.\<close>

definition header :: "DiffHunk \<Rightarrow> string" where
  "header h = hd (hlines h)"

text \<open>What the second pass reads off one hunk: the two counters when it leaves the hunk,
  and the entries the hunk contributes.\<close>

definition hunkEnd :: "DiffHunk \<Rightarrow> nat \<times> nat" where
  "hunkEnd h =
     (case extractLines (hlines h) (oldStart h, newStart h, [], []) of
        (oldLineNum, newLineNum, _, _) \<Rightarrow> (oldLineNum, newLineNum))"

definition hunkAdded :: "DiffHunk \<Rightarrow> DiffLine list" where
  "hunkAdded h =
     (case extractLines (hlines h) (oldStart h, newStart h, [], []) of
        (_, _, added, _) \<Rightarrow> added)"

definition hunkRemoved :: "DiffHunk \<Rightarrow> DiffLine list" where
  "hunkRemoved h =
     (case extractLines (hlines h) (oldStart h, newStart h, [], []) of
        (_, _, _, removed) \<Rightarrow> removed)"

text \<open>Hunks in order: each hunk starts, in both numberings, at or after the line where
  the counters of the hunk before it ended.\<close>

fun hunksInOrder :: "DiffHunk list \<Rightarrow> bool" where
  "hunksInOrder [] = True"
| "hunksInOrder [h] = True"
| "hunksInOrder (h1 # h2 # hs) =
     (fst (hunkEnd h1) \<le> oldStart h2 \<and> snd (hunkEnd h1) \<le> newStart h2
      \<and> hunksInOrder (h2 # hs))"

definition increasing :: "DiffLine list \<Rightarrow> bool" where
  "increasing es = sorted_wrt (<) (map lineNumber es)"

text \<open>
  The line bookkeeping in the words of the specification, as one pass over the lines of a
  chunk that carries the two counters of the current hunk (\<open>None\<close> before the first hunk
  header): a header sets the counters to its two start lines; a line beginning with
  \<^verbatim>\<open>+\<close> is an added line at the new counter, which then increments; a line beginning with
  \<^verbatim>\<open>-\<close> is a removed line at the old counter, which then increments; a line beginning with
  a space increments both; the no-newline marker and any other line produce nothing.
\<close>

fun scanClaimed :: "string list \<Rightarrow> (nat \<times> nat) option \<Rightarrow> DiffLine list \<times> DiffLine list" where
  "scanClaimed [] cur = ([], [])"
| "scanClaimed (l # ls) cur =
     (case hunkMatch l of
        Some (os, oc, ns, nc) \<Rightarrow> scanClaimed ls (Some (os, ns))
      | None \<Rightarrow>
          (case cur of
             None \<Rightarrow> scanClaimed ls None
           | Some (oldCounter, newCounter) \<Rightarrow>
               if l = noNewlineMarker then scanClaimed ls cur
               else if startsWith l ''+''
               then (case scanClaimed ls (Some (oldCounter, newCounter + 1)) of
                       (added, removed) \<Rightarrow>
                         (\<lparr> lineNumber = newCounter, content = drop 1 l \<rparr> # added, removed))
               else if startsWith l ''-''
               then (case scanClaimed ls (Some (oldCounter + 1, newCounter)) of
                       (added, removed) \<Rightarrow>
                         (added, \<lparr> lineNumber = oldCounter, content = drop 1 l \<rparr> # removed))
               else if startsWith l '' ''
               then scanClaimed ls (Some (oldCounter + 1, newCounter + 1))
               else scanClaimed ls cur))"

text \<open>The same pass, except that inside a hunk a line beginning with \<^verbatim>\<open>+++\<close> or with
  \<^verbatim>\<open>---\<close> produces nothing and moves no counter.\<close>

fun scanAmended :: "string list \<Rightarrow> (nat \<times> nat) option \<Rightarrow> DiffLine list \<times> DiffLine list" where
  "scanAmended [] cur = ([], [])"
| "scanAmended (l # ls) cur =
     (case hunkMatch l of
        Some (os, oc, ns, nc) \<Rightarrow> scanAmended ls (Some (os, ns))
      | None \<Rightarrow>
          (case cur of
             None \<Rightarrow> scanAmended ls None
           | Some (oldCounter, newCounter) \<Rightarrow>
               if l = noNewlineMarker then scanAmended ls cur
               else if startsWith l ''+'' \<and> \<not> startsWith l ''+++''
               then (case scanAmended ls (Some (oldCounter, newCounter + 1)) of
                       (added, removed) \<Rightarrow>
                         (\<lparr> lineNumber = newCounter, content = drop 1 l \<rparr> # added, removed))
               else if startsWith l ''-'' \<and> \<not> startsWith l ''---''
               then (case scanAmended ls (Some (oldCounter + 1, newCounter)) of
                       (added, removed) \<Rightarrow>
                         (added, \<lparr> lineNumber = oldCounter, content = drop 1 l \<rparr> # removed))
               else if startsWith l '' ''
               then scanAmended ls (Some (oldCounter + 1, newCounter + 1))
               else scanAmended ls cur))"

text \<open>The test by which \<^verbatim>\<open>parseFileChunk\<close> takes a chunk for a binary file: some line begins
  with \<^verbatim>\<open>Binary files \<close> or holds \<^verbatim>\<open>GIT binary patch\<close> anywhere.\<close>

definition binaryMarked :: "string list \<Rightarrow> bool" where
  "binaryMarked ls =
     list_ex (\<lambda>l. startsWith l ''Binary files '' \<or> includes_str l ''GIT binary patch'') ls"

definition plusPlusDiff :: string where
  "plusPlusDiff = ''diff --git a/f b/f'' @ [newline] @ ''--- a/f'' @ [newline] @ ''+++ b/f''
     @ [newline] @ ''@@ -1 +1,3 @@'' @ [newline] @ '' a'' @ [newline] @ ''+++b''
     @ [newline] @ ''+c''"

definition backwardsDiff :: string where
  "backwardsDiff = ''diff --git a/f b/f'' @ [newline] @ ''--- a/f'' @ [newline] @ ''+++ b/f''
     @ [newline] @ ''@@ -5 +5,2 @@'' @ [newline] @ '' a'' @ [newline] @ ''+b''
     @ [newline] @ ''@@ -1 +1,2 @@'' @ [newline] @ '' c'' @ [newline] @ ''+d''"

definition twoHunkDiff :: string where
  "twoHunkDiff = ''diff --git a/f b/f'' @ [newline] @ ''--- a/f'' @ [newline] @ ''+++ b/f''
     @ [newline] @ ''@@ -1,2 +1,2 @@'' @ [newline] @ '' a'' @ [newline] @ ''-b''
     @ [newline] @ ''+c'' @ [newline] @ ''@@ -7 +7,2 @@'' @ [newline] @ '' d''
     @ [newline] @ ''+e''"


text \<open>A diff of a text file whose added line holds the words \<^verbatim>\<open>GIT binary patch\<close>.\<close>

definition binaryWordsDiff :: string where
  "binaryWordsDiff = ''diff --git a/f b/f'' @ [newline] @ ''--- a/f'' @ [newline] @ ''+++ b/f''
     @ [newline] @ ''@@ -1 +1,2 @@'' @ [newline] @ '' a'' @ [newline] @ ''+GIT binary patch''"


section \<open>File matcher (analysis/file-matcher.ts)\<close>

text \<open>The four \<^verbatim>\<open>EXCLUDED_PATTERNS\<close> are literal texts anchored at the end of the input
  (\<^verbatim>\<open>/\.snap$/\<close>, \<^verbatim>\<open>/package-lock\.json$/\<close>, \<^verbatim>\<open>/yarn\.lock$/\<close>, \<^verbatim>\<open>/pnpm-lock\.yaml$/\<close>, no
  multiline flag): each tests for a suffix.\<close>

definition EXCLUDED_PATTERNS :: "(string \<Rightarrow> bool) list" where
  "EXCLUDED_PATTERNS =
     [\<lambda>s. endsWith s ''.snap'',
      \<lambda>s. endsWith s ''package-lock.json'',
      \<lambda>s. endsWith s ''yarn.lock'',
      \<lambda>s. endsWith s ''pnpm-lock.yaml'']"

definition backslash :: char where
  "backslash = CHR 0x5C"

definition normalizePath :: "string \<Rightarrow> string" where
  "normalizePath fp =
     (let p = (if startsWith fp ''a/'' \<or> startsWith fp ''b/'' then drop 2 fp else fp)
      in map (\<lambda>c. if c = backslash then CHR ''/'' else c) p)"

definition isExcluded :: "string \<Rightarrow> bool" where
  "isExcluded fp =
     (let normalized = normalizePath fp
      in list_ex (\<lambda>pattern. pattern normalized) EXCLUDED_PATTERNS)"

text \<open>The loop that fills \<^verbatim>\<open>migrationMap\<close>: a later record of the same normalized path
  replaces an earlier one.\<close>

fun buildMap :: "FileDiff list \<Rightarrow> (string \<rightharpoonup> FileDiff) \<Rightarrow> (string \<rightharpoonup> FileDiff)" where
  "buildMap [] m = m"
| "buildMap (d # ds) m = buildMap ds (m(normalizePath (filePath d) \<mapsto> d))"

text \<open>The loop over the golden records, carrying
  \<^verbatim>\<open>(matched, missedFiles, matchedMigrationPaths)\<close>.\<close>

fun matchLoop ::
  "(string \<rightharpoonup> FileDiff) \<Rightarrow> FileDiff list
     \<Rightarrow> MatchedPair list \<times> FileDiff list \<times> string set
     \<Rightarrow> MatchedPair list \<times> FileDiff list \<times> string set" where
  "matchLoop migrationMap [] st = st"
| "matchLoop migrationMap (goldenDiff # gs) (ma, mi, paths) =
     (let normalizedPath = normalizePath (filePath goldenDiff)
      in case migrationMap normalizedPath of
           Some migrationDiff \<Rightarrow>
             matchLoop migrationMap gs
               (ma @ [\<lparr> golden = goldenDiff, migration = migrationDiff \<rparr>], mi,
                insert normalizedPath paths)
         | None \<Rightarrow> matchLoop migrationMap gs (ma, mi @ [goldenDiff], paths))"

definition matchFiles :: "FileDiff list \<Rightarrow> FileDiff list \<Rightarrow> MatchResult" where
  "matchFiles goldenDiffs migrationDiffs =
     (let goldenFiltered = filter (\<lambda>d. \<not> isExcluded (filePath d)) goldenDiffs;
          migrationFiltered = filter (\<lambda>d. \<not> isExcluded (filePath d)) migrationDiffs;
          migrationMap = buildMap migrationFiltered Map.empty
      in case matchLoop migrationMap goldenFiltered ([], [], {}) of
           (ma, mi, matchedMigrationPaths) \<Rightarrow>
             \<lparr> matched = ma, missedFiles = mi,
               extraFiles =
                 filter (\<lambda>d. normalizePath (filePath d) \<notin> matchedMigrationPaths)
                   migrationFiltered \<rparr>)"

text \<open>A record with the given path and lines and nothing else, as the tests build them.\<close>

definition makeDiff :: "string \<Rightarrow> DiffLine list \<Rightarrow> DiffLine list \<Rightarrow> FileDiff" where
  "makeDiff p added removed =
     \<lparr> filePath = p, oldPath = None, addedLines = added, removedLines = removed,
       hunks = [], isBinary = False, isRenamed = False \<rparr>"

definition makeLine :: "nat \<Rightarrow> string \<Rightarrow> DiffLine" where
  "makeLine n c = \<lparr> lineNumber = n, content = c \<rparr>"

text \<open>The non-excluded records of a list, and their normalized paths.\<close>

definition kept :: "FileDiff list \<Rightarrow> FileDiff list" where
  "kept ds = filter (\<lambda>d. \<not> isExcluded (filePath d)) ds"

definition npath :: "FileDiff \<Rightarrow> string" where
  "npath d = normalizePath (filePath d)"

text \<open>The last non-excluded record of a list with a given normalized path: the one the
  map of \<^verbatim>\<open>matchFiles\<close> holds for that path.\<close>

definition lastWithPath :: "FileDiff list \<Rightarrow> string \<Rightarrow> FileDiff option" where
  "lastWithPath ds p = find (\<lambda>d. npath d = p) (rev (kept ds))"

text \<open>A candidate record is shadowed when a non-excluded golden record has its normalized
  path and the last non-excluded candidate record of that path is another record.\<close>

definition shadowed :: "FileDiff list \<Rightarrow> FileDiff list \<Rightarrow> FileDiff \<Rightarrow> bool" where
  "shadowed golds cands c \<longleftrightarrow>
     npath c \<in> npath ` set (kept golds) \<and> lastWithPath cands (npath c) \<noteq> Some c"

definition exampleGolden :: "FileDiff list" where
  "exampleGolden =
     [makeDiff ''a/src/App.tsx'' [] [], makeDiff ''src/utils.ts'' [] [],
      makeDiff ''package-lock.json'' [] []]"

definition exampleMigration :: "FileDiff list" where
  "exampleMigration =
     [makeDiff ''b/src/App.tsx'' [] [], makeDiff ''src/extra.ts'' [] [],
      makeDiff ''yarn.lock'' [] []]"

definition sharedPath :: "FileDiff list" where
  "sharedPath = [makeDiff ''a/x'' [] [], makeDiff ''x'' [makeLine 1 ''y''] []]"


section \<open>Regular expressions of the detectors\<close>

text \<open>
  The regular expressions of the noise scanner and of the theme detector are sequences of
  a literal text, \<^verbatim>\<open>\s*\<close>, \<^verbatim>\<open>\b\<close>, and a choice between literal texts. A match of a
  sequence is tried at a position of the line, knowing the character before it.
  \<^verbatim>\<open>\s*\<close> takes the longest run of whitespace: in every expression here the item after it
  begins with a character that is not whitespace, so no shorter run could match.
\<close>

datatype rx = Lit string | Ws | WordB | Choice "string list"

text \<open>The class \<^verbatim>\<open>\w\<close>.\<close>

definition isWordChar :: "char \<Rightarrow> bool" where
  "isWordChar c =
     (c \<in> set ''abcdefghijklmnopqrstuvwxyzABCDEFGHIJKLMNOPQRSTUVWXYZ0123456789_'')"

text \<open>\<^verbatim>\<open>\b\<close>: exactly one of the character before and the character after is a word
  character (the ends of the line count as not a word character).\<close>

definition wordBoundary :: "char option \<Rightarrow> string \<Rightarrow> bool" where
  "wordBoundary prev s =
     ((case prev of None \<Rightarrow> False | Some c \<Rightarrow> isWordChar c)
      \<noteq> (case s of [] \<Rightarrow> False | c # _ \<Rightarrow> isWordChar c))"

definition lastOr :: "char option \<Rightarrow> string \<Rightarrow> char option" where
  "lastOr prev l = (if l = [] then prev else Some (last l))"

fun rxMatch :: "rx list \<Rightarrow> char option \<Rightarrow> string \<Rightarrow> bool" where
  "rxMatch [] prev s = True"
| "rxMatch (Lit l # rs) prev s =
     (startsWith s l \<and> rxMatch rs (lastOr prev l) (drop (length l) s))"
| "rxMatch (Ws # rs) prev s =
     rxMatch rs (lastOr prev (takeWhile isSpace s)) (dropWhile isSpace s)"
| "rxMatch (WordB # rs) prev s = (wordBoundary prev s \<and> rxMatch rs prev s)"
| "rxMatch (Choice ls # rs) prev s =
     list_ex (\<lambda>l. startsWith s l \<and> rxMatch rs (lastOr prev l) (drop (length l) s)) ls"

text \<open>\<^verbatim>\<open>pattern.test(s)\<close> for an expression without flags: a match at some position.\<close>

fun searchFrom :: "rx list \<Rightarrow> char option \<Rightarrow> string \<Rightarrow> bool" where
  "searchFrom r prev [] = rxMatch r prev []"
| "searchFrom r prev (c # cs) = (rxMatch r prev (c # cs) \<or> searchFrom r (Some c) cs)"

definition rxTest :: "rx list \<Rightarrow> string \<Rightarrow> bool" where
  "rxTest r s = searchFrom r None s"


section \<open>Noise scanner (scoring/noise-detector.ts)\<close>

fun PENALTY :: "NoiseType \<Rightarrow> real" where
  "PENALTY unnecessary_change = 1 / 100"
| "PENALTY formatting_only = 2 / 100"
| "PENALTY incorrect_migration = 3 / 100"
| "PENALTY artifact = 5 / 100"
| "PENALTY placeholder_token = 5 / 100"

definition PLACEHOLDER_PATTERNS :: "rx list list" where
  "PLACEHOLDER_PATTERNS =
     [[WordB, Lit ''t_temp_dev_tbd'', WordB],
      [WordB, Lit ''TEMP_PLACEHOLDER'', WordB],
      [WordB, Lit ''PLACEHOLDER'', WordB],
      [WordB, Lit ''FIXME'', WordB],
      [WordB, Lit ''HACK'', WordB],
      [WordB, Lit ''XXX'', WordB]]"

definition ARTIFACT_PATTERNS :: "rx list list" where
  "ARTIFACT_PATTERNS =
     [[WordB, Lit ''console.log(''],
      [WordB, Lit ''console.debug(''],
      [Lit ''//'', Ws, Lit ''TODO'', WordB],
      [Lit ''//'', Ws, Lit ''@ts-ignore'', WordB],
      [WordB, Lit ''debugger'', WordB]]"

record NoiseDetectorInput =
  nd_matchResult :: MatchResult  \<comment> \<open>field \<^verbatim>\<open>matchResult\<close>\<close>
  migrationDiffs :: "FileDiff list"
  detectionResults :: "DetectionResult list"

definition detectUnnecessaryChanges :: "MatchResult \<Rightarrow> NoiseInstance list" where
  "detectUnnecessaryChanges mr =
     map (\<lambda>diff. \<lparr> ntype = unnecessary_change, nfile = filePath diff, nline = None,
                   description = ''File changed in migration but not in golden PR'',
                   penalty = PENALTY unnecessary_change \<rparr>)
       (extraFiles mr)"

text \<open>\<^verbatim>\<open>l.content.replace(/\s+/g, '')\<close>: the content without its whitespace.\<close>

definition removeWhitespace :: "string \<Rightarrow> string" where
  "removeWhitespace s = filter (\<lambda>c. \<not> isSpace c) s"

text \<open>\<^verbatim>\<open>[...xs].sort()\<close> on strings orders them by code units; \<^const>\<open>sort\<close> does so with
  the lexicographic order on lists of characters.\<close>

definition isFormattingOnly :: "FileDiff \<Rightarrow> bool" where
  "isFormattingOnly diff =
     (let removedNormalized = map (\<lambda>l. trim (removeWhitespace (content l))) (removedLines diff);
          addedNormalized = map (\<lambda>l. trim (removeWhitespace (content l))) (addedLines diff)
      in if length removedNormalized \<noteq> length addedNormalized then False
         else (let removedSorted = sort removedNormalized;
                   addedSorted = sort addedNormalized
               in list_all (\<lambda>i. removedSorted ! i = addedSorted ! i)
                    [0..<length removedSorted]))"

definition formattingInstance :: "FileDiff \<Rightarrow> NoiseInstance" where
  "formattingInstance diff =
     \<lparr> ntype = formatting_only, nfile = filePath diff, nline = None,
       description = ''Changes appear to be formatting/whitespace only'',
       penalty = PENALTY formatting_only \<rparr>"

text \<open>The loop of \<^verbatim>\<open>detectFormattingOnlyChanges\<close> over the candidate records.\<close>

fun formattingLoop :: "string set \<Rightarrow> FileDiff list \<Rightarrow> NoiseInstance list" where
  "formattingLoop matchedMigrationPaths [] = []"
| "formattingLoop matchedMigrationPaths (diff # ds) =
     (if filePath diff \<notin> matchedMigrationPaths
      then formattingLoop matchedMigrationPaths ds
      else if addedLines diff = [] \<and> removedLines diff = []
      then formattingLoop matchedMigrationPaths ds
      else if isFormattingOnly diff
      then formattingInstance diff # formattingLoop matchedMigrationPaths ds
      else formattingLoop matchedMigrationPaths ds)"

definition detectFormattingOnlyChanges :: "FileDiff list \<Rightarrow> MatchResult \<Rightarrow> NoiseInstance list" where
  "detectFormattingOnlyChanges ds mr =
     (let matchedMigrationPaths = set (map (\<lambda>m. filePath (migration m)) (matched mr))
      in formattingLoop matchedMigrationPaths ds)"

definition detectIncorrectMigrations :: "DetectionResult list \<Rightarrow> NoiseInstance list" where
  "detectIncorrectMigrations results =
     map (\<lambda>r. \<lparr> ntype = incorrect_migration, nfile = patternId r, nline = None,
                description = ''Incorrect migration for pattern: '' @ message r,
                penalty = PENALTY incorrect_migration \<rparr>)
       (filter (\<lambda>r. status r = INCORRECT) results)"

text \<open>The two inner loops of \<^verbatim>\<open>detectArtifacts\<close>: one instance for a line that some
  pattern matches (the \<^verbatim>\<open>break\<close>), none otherwise.\<close>

definition artifactsOf :: "FileDiff \<Rightarrow> NoiseInstance list" where
  "artifactsOf diff =
     concat (map (\<lambda>l. if list_ex (\<lambda>pattern. rxTest pattern (content l)) ARTIFACT_PATTERNS
                       then [\<lparr> ntype = artifact, nfile = filePath diff,
                               nline = Some (lineNumber l),
                               description = ''Artifact detected: '' @ trim (content l),
                               penalty = PENALTY artifact \<rparr>]
                       else [])
               (addedLines diff))"

definition detectArtifacts :: "FileDiff list \<Rightarrow> NoiseInstance list" where
  "detectArtifacts ds = concat (map artifactsOf ds)"

definition placeholdersOf :: "FileDiff \<Rightarrow> NoiseInstance list" where
  "placeholdersOf diff =
     concat (map (\<lambda>l. if list_ex (\<lambda>pattern. rxTest pattern (content l)) PLACEHOLDER_PATTERNS
                       then [\<lparr> ntype = placeholder_token, nfile = filePath diff,
                               nline = Some (lineNumber l),
                               description = ''Placeholder token detected: '' @ trim (content l),
                               penalty = PENALTY placeholder_token \<rparr>]
                       else [])
               (addedLines diff))"

definition detectPlaceholderTokens :: "FileDiff list \<Rightarrow> NoiseInstance list" where
  "detectPlaceholderTokens ds = concat (map placeholdersOf ds)"

definition detectNoise :: "NoiseDetectorInput \<Rightarrow> NoiseInstance list" where
  "detectNoise inp =
     detectUnnecessaryChanges (nd_matchResult inp)
     @ detectFormattingOnlyChanges (migrationDiffs inp) (nd_matchResult inp)
     @ detectIncorrectMigrations (detectionResults inp)
     @ detectArtifacts (migrationDiffs inp)
     @ detectPlaceholderTokens (migrationDiffs inp)"

text \<open>The run of the driver on a golden and a candidate list, with no detector outcome.\<close>

definition noiseRun :: "FileDiff list \<Rightarrow> FileDiff list \<Rightarrow> NoiseInstance list" where
  "noiseRun goldenDiffs ds =
     detectNoise \<lparr> nd_matchResult = matchFiles goldenDiffs ds, migrationDiffs = ds,
                   detectionResults = [] \<rparr>"

definition snapshotDiff :: FileDiff where
  "snapshotDiff =
     makeDiff ''src/__snapshots__/App.test.tsx.snap''
       [makeLine 3 ''  console.log(1); // FIXME''] []"

definition whitespaceDiff :: FileDiff where
  "whitespaceDiff =
     makeDiff ''app.ts'' [makeLine 1 ''  const x = 1;''] [makeLine 1 ''const x = 1;'']"

definition semanticDiff :: FileDiff where
  "semanticDiff =
     makeDiff ''app.ts'' [makeLine 1 ''const y = 2;''] [makeLine 1 ''const x = 1;'']"

definition trailingDiff :: FileDiff where
  "trailingDiff =
     makeDiff ''app.ts'' [makeLine 1 ''const x = 1;  ''] [makeLine 1 ''const x = 1;'']"

text \<open>The records for which the loop of \<^verbatim>\<open>detectFormattingOnlyChanges\<close> pushes an instance.\<close>

definition flagged :: "string set \<Rightarrow> FileDiff \<Rightarrow> bool" where
  "flagged paths d \<longleftrightarrow>
     filePath d \<in> paths \<and> (addedLines d \<noteq> [] \<or> removedLines d \<noteq> []) \<and> isFormattingOnly d"



section \<open>Theme detector (patterns/theme-dark-removal.ts)\<close>

text \<open>\<^verbatim>\<open>/theme\s*=\s*(?:"dark"|{'dark'}|'dark'|\{['"]dark['"]\}|\{ThemeVariant\.dark\})/\<close>,
  the alternative with the two quote classes written out as its four texts.\<close>

definition THEME_DARK_RE :: "rx list" where
  \<open>THEME_DARK_RE =
     [Lit ''theme'', Ws, Lit ''='', Ws,
      Choice [''"dark"'', ''{'' @ [CHR 0x27] @ ''dark'' @ [CHR 0x27] @ ''}'',
              [CHR 0x27] @ ''dark'' @ [CHR 0x27],
              ''{'' @ [CHR 0x27] @ ''dark"}'', ''{"dark'' @ [CHR 0x27] @ ''}'', ''{"dark"}'',
              ''{ThemeVariant.dark}'']]\<close>

definition hasThemeDark :: "DiffLine list \<Rightarrow> bool" where
  "hasThemeDark ls = list_ex (\<lambda>l. rxTest THEME_DARK_RE (content l)) ls"

definition PATTERN_ID :: string where
  "PATTERN_ID = ''theme-dark-removal''"

definition detect :: "FileDiff \<Rightarrow> FileDiff option \<Rightarrow> DetectionResult" where
  \<open>detect goldenDiff migrationDiff =
     (let goldenRemovesThemeDark = hasThemeDark (removedLines goldenDiff)
      in if \<not> goldenRemovesThemeDark
         then \<lparr> patternId = PATTERN_ID, status = NOT_APPLICABLE,
                message = ''No theme="dark" removal in golden diff'', details = None \<rparr>
         else case migrationDiff of
                None \<Rightarrow>
                  \<lparr> patternId = PATTERN_ID, status = FILE_MISSING,
                    message = ''Migration file is missing'', details = None \<rparr>
              | Some md \<Rightarrow>
                  (let migrationRemovesThemeDark = hasThemeDark (removedLines md)
                   in if migrationRemovesThemeDark
                      then (let migrationAddsThemeDark = hasThemeDark (addedLines md)
                            in if migrationAddsThemeDark
                               then \<lparr> patternId = PATTERN_ID, status = INCORRECT,
                                      message = ''theme="dark" was removed but re-added in migration'',
                                      details = None \<rparr>
                               else \<lparr> patternId = PATTERN_ID, status = CORRECT,
                                      message = ''theme="dark" prop correctly removed'',
                                      details = None \<rparr>)
                      else \<lparr> patternId = PATTERN_ID, status = MISSING,
                             message = ''theme="dark" prop removal not found in migration'',
                             details = None \<rparr>))\<close>

definition pageDark :: FileDiff where
  \<open>pageDark = makeDiff ''test.tsx'' [] [makeLine 1 ''<Page theme="dark">'']\<close>

definition pageReadded :: FileDiff where
  \<open>pageReadded =
     makeDiff ''test.tsx'' [makeLine 2 ''<Page theme="dark" variant="default">'']
       [makeLine 1 ''<Page theme="dark">'']\<close>

definition pageLight :: FileDiff where
  \<open>pageLight = makeDiff ''test.tsx'' [] [makeLine 1 ''<Page variant="light">'']\<close>


section \<open>Detector registry (patterns/registry.ts)\<close>

text \<open>The structured input of a detector is opaque to the registry and to the theme
  detector.\<close>

typedecl ASTRepresentation

datatype Complexity = trivial | moderate | complex

record PatternDefinition =
  pd_id :: string  \<comment> \<open>field \<^verbatim>\<open>id\<close>\<close>
  pd_name :: string  \<comment> \<open>field \<^verbatim>\<open>name\<close>\<close>
  complexity :: Complexity
  pd_weight :: nat  \<comment> \<open>field \<^verbatim>\<open>weight\<close>, one of 1, 2, 3\<close>
  pd_description :: string  \<comment> \<open>field \<^verbatim>\<open>description\<close>\<close>
  pd_detect ::
    "FileDiff \<Rightarrow> FileDiff option \<Rightarrow> ASTRepresentation option \<Rightarrow> ASTRepresentation option
       \<Rightarrow> DetectionResult"  \<comment> \<open>field \<^verbatim>\<open>detect\<close>\<close>

text \<open>The definition that theme-dark-removal.ts registers.\<close>

definition pattern :: PatternDefinition where
  \<open>pattern =
     \<lparr> pd_id = PATTERN_ID, pd_name = ''Theme Dark Removal'', complexity = trivial,
       pd_weight = 1, pd_description = ''Detects removal of theme="dark" prop'',
       pd_detect = (\<lambda>goldenDiff migrationDiff goldenAST migrationAST.
                      detect goldenDiff migrationDiff) \<rparr>\<close>

text \<open>
  The detection step of the driver (cli.ts): every pattern of the catalog on every matched
  pair, then every pattern on every missed golden record with an absent candidate
  (\<^verbatim>\<open>null\<close>). The structured inputs come from the syntax-tree extraction, which is outside
  the model: the three functions that supply them are parameters.
\<close>

definition runDetectors ::
  "(FileDiff \<Rightarrow> ASTRepresentation option) \<Rightarrow> (FileDiff \<Rightarrow> ASTRepresentation option)
     \<Rightarrow> (FileDiff \<Rightarrow> ASTRepresentation option)
     \<Rightarrow> PatternDefinition list \<Rightarrow> MatchResult \<Rightarrow> DetectionResult list" where
  "runDetectors goldenAST migrationAST missedAST pats mr =
     concat (map (\<lambda>m. map (\<lambda>p. pd_detect p (golden m) (Some (migration m))
                                 (goldenAST (golden m)) (migrationAST (migration m)))
                         pats)
               (matched mr))
     @ concat (map (\<lambda>g. map (\<lambda>p. pd_detect p g None (missedAST g) None) pats)
                 (missedFiles mr))"

text \<open>No structured input, for a run in which only detectors that ignore it are registered.\<close>

definition noAST :: "FileDiff \<Rightarrow> ASTRepresentation option" where
  "noAST d = None"

text \<open>
  Arrays are objects with identity. The store lists the arrays that exist; the address of
  an array is its index. Loading the module allocates the array \<^verbatim>\<open>patterns\<close> first, at
  address 0; a spread \<^verbatim>\<open>[...patterns]\<close> and a \<^verbatim>\<open>filter\<close> allocate a new array at the next
  address and return that address.
\<close>

type_synonym store = "PatternDefinition list list"

definition patterns :: nat where
  "patterns = 0"

definition moduleLoaded :: store where
  "moduleLoaded = [[]]"

definition registerPattern :: "PatternDefinition \<Rightarrow> store \<Rightarrow> store" where
  "registerPattern p h = h[patterns := h ! patterns @ [p]]"

definition getPatterns :: "store \<Rightarrow> nat \<times> store" where
  "getPatterns h = (length h, h @ [h ! patterns])"

definition getPatternsByComplexity :: "Complexity \<Rightarrow> store \<Rightarrow> nat \<times> store" where
  "getPatternsByComplexity c h =
     (length h, h @ [filter (\<lambda>p. complexity p = c) (h ! patterns)])"

definition clearPatterns :: "store \<Rightarrow> store" where
  "clearPatterns h = h[patterns := []]"

text \<open>A caller that holds the address of an array can change it in place (\<^verbatim>\<open>push\<close>,
  \<^verbatim>\<open>pop\<close>, an assignment to an index or to \<^verbatim>\<open>length\<close>, \<^verbatim>\<open>splice\<close>): the array at that
  address gets new contents, computed from the old.\<close>

definition mutate ::
  "nat \<Rightarrow> (PatternDefinition list \<Rightarrow> PatternDefinition list) \<Rightarrow> store \<Rightarrow> store" where
  "mutate a f h = h[a := f (h ! a)]"

text \<open>The contents of the array a call returned, and of the catalog.\<close>

definition returned :: "nat \<times> store \<Rightarrow> PatternDefinition list" where
  "returned r = snd r ! fst r"

definition catalog :: "store \<Rightarrow> PatternDefinition list" where
  "catalog h = h ! patterns"

definition secondPattern :: PatternDefinition where
  "secondPattern = pattern\<lparr> pd_id := ''select-rewrite'', complexity := complex, pd_weight := 3 \<rparr>"

section \<open>Properties\<close>

section \<open>Pattern score\<close>

lemma patternLoop_sums:
  "patternLoop rs (c, e) = (c + creditSum rs, e + weightSum rs)"
proof (induction rs arbitrary: c e)
  case Nil
  show ?case by (simp add: creditSum_def weightSum_def graded_def)
next
  case (Cons r rs)
  show ?case
    by (simp add: Cons.IH creditSum_def weightSum_def graded_def credit_of_def Let_def)
qed

lemma computePatternScore_eq:
  "computePatternScore rs =
     (if weightSum rs = 0 then 1 else creditSum rs / weightSum rs)"
  by (simp add: computePatternScore_def patternLoop_sums)

text \<open>
  C4. The pattern score is the sum, over the outcomes that are not \<^verbatim>\<open>NOT_APPLICABLE\<close>, of
  weight times credit, divided by the sum of the weights of the same outcomes, and it is
  1 when that sum of weights is zero; the credit is 1 for \<^verbatim>\<open>CORRECT\<close>, 0.25 for
  \<^verbatim>\<open>INCORRECT\<close>, 0 for \<^verbatim>\<open>MISSING\<close> and \<^verbatim>\<open>FILE_MISSING\<close>. One \<^verbatim>\<open>CORRECT\<close> outcome of
  weight 3 and one \<^verbatim>\<open>MISSING\<close> outcome of weight 1 score 3/4.
\<close>

theorem computePatternScore_formula:
  "computePatternScore rs =
     (if (\<Sum>r\<leftarrow>filter (\<lambda>r. status (result r) \<noteq> NOT_APPLICABLE) rs. weight r) = 0 then 1
      else (\<Sum>r\<leftarrow>filter (\<lambda>r. status (result r) \<noteq> NOT_APPLICABLE) rs.
               weight r * credit_of (status (result r)))
           / (\<Sum>r\<leftarrow>filter (\<lambda>r. status (result r) \<noteq> NOT_APPLICABLE) rs. weight r))
   \<and> credit_of CORRECT = 1 \<and> credit_of INCORRECT = 1 / 4
   \<and> credit_of MISSING = 0 \<and> credit_of FILE_MISSING = 0
   \<and> computePatternScore [outcome CORRECT 3, outcome MISSING 1] = 3 / 4"
proof -
  have "computePatternScore [outcome CORRECT 3, outcome MISSING 1] = 3 / 4"
    by (simp add: computePatternScore_def outcome_def)
  moreover have "credit_of CORRECT = 1 \<and> credit_of INCORRECT = 1 / 4
      \<and> credit_of MISSING = 0 \<and> credit_of FILE_MISSING = 0"
    by (simp add: credit_of_def)
  ultimately show ?thesis
    using computePatternScore_eq [of rs]
    by (simp add: creditSum_def weightSum_def graded_def)
qed

theorem computePatternScore_formula_witness:
  "computePatternScore [outcome INCORRECT 2, outcome NOT_APPLICABLE 5, outcome CORRECT 2]
     = 5 / 8"
  using computePatternScore_formula
    [of "[outcome INCORRECT 2, outcome NOT_APPLICABLE 5, outcome CORRECT 2]"]
  by (simp add: outcome_def credit_of_def)


lemma weightSum_insert:
  "weightSum (xs @ u # ys) =
     weightSum (xs @ ys) + (if status (result u) = NOT_APPLICABLE then 0 else weight u)"
  by (simp add: weightSum_def graded_def)

lemma creditSum_insert:
  "creditSum (xs @ u # ys) =
     creditSum (xs @ ys)
       + (if status (result u) = NOT_APPLICABLE then 0
          else weight u * credit_of (status (result u)))"
  by (simp add: creditSum_def graded_def)

lemma credit_of_nonneg: "0 \<le> credit_of s"
  by (cases s) (simp_all add: credit_of_def)

lemma creditSum_nonneg:
  "list_all (\<lambda>r. 0 < weight r) rs \<Longrightarrow> 0 \<le> creditSum rs"
  unfolding creditSum_def graded_def
  by (induction rs) (simp_all add: credit_of_nonneg)

lemma weightSum_nonneg:
  "list_all (\<lambda>r. 0 < weight r) rs \<Longrightarrow> 0 \<le> weightSum rs"
  unfolding weightSum_def graded_def
  by (induction rs) simp_all

lemma sums_positive:
  assumes pos: "list_all (\<lambda>r. 0 < weight r) rs"
    and ex: "list_ex (\<lambda>r. status (result r) = CORRECT \<or> status (result r) = INCORRECT) rs"
  shows "0 < creditSum rs \<and> 0 < weightSum rs"
proof -
  from ex obtain r where r: "r \<in> set rs"
      "status (result r) = CORRECT \<or> status (result r) = INCORRECT"
    by (auto simp: list_ex_iff)
  then obtain xs ys where rs: "rs = xs @ r # ys"
    by (auto dest: split_list)
  from pos rs have wr: "0 < weight r" and rest: "list_all (\<lambda>r. 0 < weight r) (xs @ ys)"
    by simp_all
  from r(2) have cr: "0 < credit_of (status (result r))"
      and na: "status (result r) \<noteq> NOT_APPLICABLE"
    by (auto simp: credit_of_def)
  have "0 < weight r * credit_of (status (result r))"
    using wr cr by simp
  then have "0 < creditSum rs"
    using creditSum_nonneg [OF rest] na by (simp add: rs creditSum_insert)
  moreover have "0 < weightSum rs"
    using weightSum_nonneg [OF rest] na wr by (simp add: rs weightSum_insert)
  ultimately show ?thesis by simp
qed

text \<open>
  C10. An outcome in the \<^verbatim>\<open>UNNECESSARY\<close> state is graded: it has credit 0 and adds its
  whole weight to the denominator of the pattern score, where a \<^verbatim>\<open>NOT_APPLICABLE\<close> outcome
  changes nothing. With positive weights, and an outcome of positive credit (\<^verbatim>\<open>CORRECT\<close>
  or \<^verbatim>\<open>INCORRECT\<close>) among the others, putting an \<^verbatim>\<open>UNNECESSARY\<close> outcome anywhere in
  the list makes the pattern score strictly smaller.
\<close>

theorem unnecessary_lowers_patternScore:
  assumes u: "status (result u) = UNNECESSARY" and wu: "0 < weight u"
    and pos: "list_all (\<lambda>r. 0 < weight r) (xs @ ys)"
    and ex: "list_ex (\<lambda>r. status (result r) = CORRECT \<or> status (result r) = INCORRECT)
               (xs @ ys)"
    and n: "status (result n) = NOT_APPLICABLE"
  shows "credit_of UNNECESSARY = 0
     \<and> computePatternScore (xs @ u # ys)
         = creditSum (xs @ ys) / (weightSum (xs @ ys) + weight u)
     \<and> computePatternScore (xs @ u # ys) < computePatternScore (xs @ ys)
     \<and> computePatternScore (xs @ n # ys) = computePatternScore (xs @ ys)"
proof -
  from sums_positive [OF pos ex]
  have c: "0 < creditSum (xs @ ys)" and w: "0 < weightSum (xs @ ys)"
    by simp_all
  have cu: "credit_of UNNECESSARY = 0"
    by (simp add: credit_of_def)
  have wU: "weightSum (xs @ u # ys) = weightSum (xs @ ys) + weight u"
    by (simp add: weightSum_insert u)
  have cU: "creditSum (xs @ u # ys) = creditSum (xs @ ys)"
    by (simp add: creditSum_insert u cu)
  have with_u: "computePatternScore (xs @ u # ys)
      = creditSum (xs @ ys) / (weightSum (xs @ ys) + weight u)"
    using w wu by (simp add: computePatternScore_eq wU cU)
  have without: "computePatternScore (xs @ ys) = creditSum (xs @ ys) / weightSum (xs @ ys)"
    using w by (simp add: computePatternScore_eq)
  have "creditSum (xs @ ys) / (weightSum (xs @ ys) + weight u)
      < creditSum (xs @ ys) / weightSum (xs @ ys)"
    using c w wu by (simp add: frac_less2)
  then have less: "computePatternScore (xs @ u # ys) < computePatternScore (xs @ ys)"
    by (simp add: with_u without)
  have same: "computePatternScore (xs @ n # ys) = computePatternScore (xs @ ys)"
    by (simp add: computePatternScore_eq weightSum_insert creditSum_insert n)
  from cu with_u less same show ?thesis by simp
qed

theorem unnecessary_lowers_patternScore_witness:
  "computePatternScore [outcome CORRECT 3, outcome UNNECESSARY 1] = 3 / 4
   \<and> computePatternScore [outcome CORRECT 3, outcome UNNECESSARY 1]
       < computePatternScore [outcome CORRECT 3]
   \<and> computePatternScore [outcome CORRECT 3, outcome NOT_APPLICABLE 1]
       = computePatternScore [outcome CORRECT 3]"
  using unnecessary_lowers_patternScore
    [of "outcome UNNECESSARY 1" "[outcome CORRECT 3]" "[]" "outcome NOT_APPLICABLE 1"]
  by (simp add: outcome_def creditSum_def weightSum_def graded_def credit_of_def)


section \<open>Diff parser: the two passes as one\<close>

lemma startsWith_Cons: "startsWith s (c # p) \<longleftrightarrow> (\<exists>t. s = c # t \<and> startsWith t p)"
  by (cases s) (auto simp: startsWith_def)

lemma startsWith_Nil [simp]: "startsWith s []"
  by (simp add: startsWith_def)

lemma hunkMatch_at: "hunkMatch l = Some m \<Longrightarrow> startsWith l ''@@''"
  by (auto simp: hunkMatch_def startsWith_Cons split: if_splits)

lemma extractLines_append:
  "extractLines (xs @ ys) st = extractLines ys (extractLines xs st)"
proof (induction xs arbitrary: st)
  case Nil
  show ?case by simp
next
  case (Cons l xs)
  obtain o' n a r where st: "st = (o', n, a, r)"
    by (cases st)
  show ?case
    by (simp add: st Cons.IH)
qed

lemma extractLines_acc:
  "extractLines ls (o', n, a, r) =
     (case extractLines ls (o', n, [], []) of (o'', n', A, R) \<Rightarrow> (o'', n', a @ A, r @ R))"
proof (induction ls arbitrary: o' n a r)
  case Nil
  show ?case by simp
next
  case (Cons l ls)
  have step: "\<And>o1 n1 a1 r1 x y. extractLines ls (o1, n1, a1 @ x, r1 @ y) =
      (case extractLines ls (o1, n1, x, y) of (o'', n', A, R) \<Rightarrow> (o'', n', a1 @ A, r1 @ R))"
  proof -
    fix o1 n1 and a1 r1 x y :: "DiffLine list"
    show "extractLines ls (o1, n1, a1 @ x, r1 @ y) =
      (case extractLines ls (o1, n1, x, y) of (o'', n', A, R) \<Rightarrow> (o'', n', a1 @ A, r1 @ R))"
      by (subst Cons.IH [of o1 n1 "a1 @ x" "r1 @ y"], subst Cons.IH [of o1 n1 x y])
        (simp split: prod.splits)
  qed
  show ?case
    using step [of o' n a "[]" r "[]"] step [of o' "n + 1" a _ r "[]"]
      step [of "o' + 1" n a "[]" r] step [of "o' + 1" "n + 1" a "[]" r "[]"]
    by simp
qed

lemma extractHunks_append:
  "extractHunks (hs @ hs') acc = extractHunks hs' (extractHunks hs acc)"
proof (induction hs arbitrary: acc)
  case Nil
  show ?case by simp
next
  case (Cons h hs)
  obtain a r where acc: "acc = (a, r)"
    by (cases acc)
  show ?case
    by (simp add: acc Cons.IH split: prod.splits)
qed

lemma extractHunks_single:
  "extractHunks [h] (a, r) = (a @ hunkAdded h, r @ hunkRemoved h)"
  using extractLines_acc [of "hlines h" "oldStart h" "newStart h" a r]
  by (simp add: hunkAdded_def hunkRemoved_def split: prod.splits)

lemma extractHunks_concat:
  "extractHunks hs (a, r) =
     (a @ concat (map hunkAdded hs), r @ concat (map hunkRemoved hs))"
proof (induction hs arbitrary: a r)
  case Nil
  show ?case by simp
next
  case (Cons h hs)
  have "extractHunks (h # hs) (a, r) = extractHunks hs (extractHunks [h] (a, r))"
    using extractHunks_append [of "[h]" hs "(a, r)"] by simp
  then show ?case
    by (simp only: extractHunks_single Cons.IH) simp
qed

text \<open>The hunk being collected, after one more line.\<close>

lemma hunk_snoc:
  assumes "extractLines (hlines h) (oldStart h, newStart h, [], []) = (o', n, A, R)"
  shows "extractLines (hlines (h\<lparr>hlines := hlines h @ [l]\<rparr>))
           (oldStart (h\<lparr>hlines := hlines h @ [l]\<rparr>),
            newStart (h\<lparr>hlines := hlines h @ [l]\<rparr>), [], [])
         = extractLines [l] (o', n, A, R)"
  using assms by (simp add: extractLines_append)

lemma hunk_parts:
  "extractLines (hlines h) (oldStart h, newStart h, [], []) = (o', n, A, R)
   \<Longrightarrow> hunkAdded h = A \<and> hunkRemoved h = R \<and> hunkEnd h = (o', n)"
  by (simp add: hunkAdded_def hunkRemoved_def hunkEnd_def)

lemma parseHunks_finish: "parseHunks ls = finish (collectHunks ls ([], None))"
  by (simp add: parseHunks_def finish_def split: prod.splits option.splits)

lemma collect_scan_None:
  "extractHunks (finish (collectHunks ls (hs, None))) ([], []) =
     (case scanAmended ls None of
        (A, R) \<Rightarrow> (concat (map hunkAdded hs) @ A, concat (map hunkRemoved hs) @ R))
   \<and> (\<forall>h o' n Ah Rh.
        extractLines (hlines h) (oldStart h, newStart h, [], []) = (o', n, Ah, Rh) \<longrightarrow>
        extractHunks (finish (collectHunks ls (hs, Some h))) ([], []) =
          (case scanAmended ls (Some (o', n)) of
             (A, R) \<Rightarrow> (concat (map hunkAdded hs) @ Ah @ A,
                        concat (map hunkRemoved hs) @ Rh @ R)))"
proof (induction ls arbitrary: hs)
  case Nil
  show ?case
    by (auto simp: finish_def extractHunks_concat dest: hunk_parts)
next
  case (Cons l ls)
  show ?case
  proof (cases "hunkMatch l")
    case (Some m)
    obtain os oc ns nc where m: "m = (os, oc, ns, nc)"
      by (cases m)
    define hn where "hn = \<lparr> oldStart = os, oldCount = (case oc of Some c \<Rightarrow> c | None \<Rightarrow> 1),
        newStart = ns, newCount = (case nc of Some c \<Rightarrow> c | None \<Rightarrow> 1), hlines = [l] \<rparr>"
    have at: "startsWith l ''@@''"
      using Some by (rule hunkMatch_at)
    have run: "extractLines (hlines hn) (oldStart hn, newStart hn, [], []) = (os, ns, [], [])"
      using at by (simp add: hn_def)
    note ih = Cons.IH [THEN conjunct2, rule_format, OF run]
    have none: "extractHunks (finish (collectHunks (l # ls) (hs, None))) ([], []) =
       (case scanAmended (l # ls) None of
          (A, R) \<Rightarrow> (concat (map hunkAdded hs) @ A, concat (map hunkRemoved hs) @ R))"
      using ih [of hs] by (simp add: Some m hn_def)
    have some: "extractHunks (finish (collectHunks (l # ls) (hs, Some h))) ([], []) =
          (case scanAmended (l # ls) (Some (o', n)) of
             (A, R) \<Rightarrow> (concat (map hunkAdded hs) @ Ah @ A,
                        concat (map hunkRemoved hs) @ Rh @ R))"
      if h: "extractLines (hlines h) (oldStart h, newStart h, [], []) = (o', n, Ah, Rh)"
      for h o' n Ah Rh
    proof -
      have "hunkAdded h = Ah" "hunkRemoved h = Rh"
        using h by (simp_all add: hunkAdded_def hunkRemoved_def)
      then show ?thesis
        using ih [of "hs @ [h]"] by (simp add: Some m hn_def split: prod.splits)
    qed
    from none some show ?thesis by blast
  next
    case None
    have none: "extractHunks (finish (collectHunks (l # ls) (hs, None))) ([], []) =
       (case scanAmended (l # ls) None of
          (A, R) \<Rightarrow> (concat (map hunkAdded hs) @ A, concat (map hunkRemoved hs) @ R))"
      using Cons.IH [of hs] by (simp add: None)
    have some: "extractHunks (finish (collectHunks (l # ls) (hs, Some h))) ([], []) =
          (case scanAmended (l # ls) (Some (o', n)) of
             (A, R) \<Rightarrow> (concat (map hunkAdded hs) @ Ah @ A,
                        concat (map hunkRemoved hs) @ Rh @ R))"
      if h: "extractLines (hlines h) (oldStart h, newStart h, [], []) = (o', n, Ah, Rh)"
      for h o' n Ah Rh
    proof -
      note ih = Cons.IH [THEN conjunct2, rule_format]
      note snoc = hunk_snoc [OF h, of l]
      consider (marker) "l = noNewlineMarker"
        | (plus) "l \<noteq> noNewlineMarker" "startsWith l ''+''" "\<not> startsWith l ''+++''"
        | (minus) "l \<noteq> noNewlineMarker" "\<not> startsWith l ''+''"
            "startsWith l ''-''" "\<not> startsWith l ''---''"
        | (space) "l \<noteq> noNewlineMarker" "\<not> startsWith l ''+''" "\<not> startsWith l ''-''"
            "startsWith l '' ''"
        | (plus3) "startsWith l ''+++''"
        | (minus3) "startsWith l ''---''"
        | (other) "l \<noteq> noNewlineMarker" "\<not> startsWith l ''+''" "\<not> startsWith l ''-''"
            "\<not> startsWith l '' ''"
        by blast
      then show ?thesis
      proof cases
        case marker
        have not: "\<not> startsWith l ''+''" "\<not> startsWith l ''-''" "\<not> startsWith l '' ''"
          by (simp_all add: marker noNewlineMarker_def startsWith_Cons)
        have run: "extractLines (hlines (h\<lparr>hlines := hlines h @ [l]\<rparr>))
           (oldStart (h\<lparr>hlines := hlines h @ [l]\<rparr>),
            newStart (h\<lparr>hlines := hlines h @ [l]\<rparr>), [], []) = (o', n, Ah, Rh)"
          by (simp only: snoc) (simp add: marker)
        have nm: "hunkMatch noNewlineMarker = None"
          using None marker by simp
        show ?thesis
          using ih [OF run, of hs] not by (simp add: nm marker)
      next
        case plus
        have run: "extractLines (hlines (h\<lparr>hlines := hlines h @ [l]\<rparr>))
           (oldStart (h\<lparr>hlines := hlines h @ [l]\<rparr>),
            newStart (h\<lparr>hlines := hlines h @ [l]\<rparr>), [], [])
           = (o', n + 1, Ah @ [\<lparr> lineNumber = n, content = drop 1 l \<rparr>], Rh)"
          using plus by (simp only: snoc) (auto simp: startsWith_Cons)
        show ?thesis
          using ih [OF run, of hs] plus by (simp add: None split: prod.splits)
      next
        case minus
        have run: "extractLines (hlines (h\<lparr>hlines := hlines h @ [l]\<rparr>))
           (oldStart (h\<lparr>hlines := hlines h @ [l]\<rparr>),
            newStart (h\<lparr>hlines := hlines h @ [l]\<rparr>), [], [])
           = (o' + 1, n, Ah, Rh @ [\<lparr> lineNumber = o', content = drop 1 l \<rparr>])"
          using minus by (simp only: snoc) (auto simp: startsWith_Cons)
        show ?thesis
          using ih [OF run, of hs] minus by (simp add: None split: prod.splits)
      next
        case space
        have run: "extractLines (hlines (h\<lparr>hlines := hlines h @ [l]\<rparr>))
           (oldStart (h\<lparr>hlines := hlines h @ [l]\<rparr>),
            newStart (h\<lparr>hlines := hlines h @ [l]\<rparr>), [], [])
           = (o' + 1, n + 1, Ah, Rh)"
          using space by (simp only: snoc) (auto simp: startsWith_Cons)
        show ?thesis
          using ih [OF run, of hs] space by (simp add: None split: prod.splits)
      next
        case plus3
        then have facts: "startsWith l ''+''" "\<not> startsWith l ''-''" "\<not> startsWith l '' ''"
            "l \<noteq> noNewlineMarker"
          by (auto simp: startsWith_Cons noNewlineMarker_def)
        show ?thesis
          using ih [OF h, of hs] plus3 facts by (simp add: None)
      next
        case minus3
        then have facts: "\<not> startsWith l ''+''" "startsWith l ''-''" "\<not> startsWith l '' ''"
            "l \<noteq> noNewlineMarker"
          by (auto simp: startsWith_Cons noNewlineMarker_def)
        show ?thesis
          using ih [OF h, of hs] minus3 facts by (simp add: None)
      next
        case other
        show ?thesis
          using ih [OF h, of hs] other by (simp add: None)
      qed
    qed
    from none some show ?thesis by blast
  qed
qed

lemma two_passes_as_one:
  "extractHunks (parseHunks ls) ([], []) = scanAmended ls None"
  using collect_scan_None [of ls "[]", THEN conjunct1]
  by (simp add: parseHunks_finish split: prod.splits)


lemma parseFileChunk_textual:
  assumes "parseFileChunk chunk = Some fd" and "\<not> isBinary fd"
  shows "hunks fd = parseHunks (split_on newline chunk)
     \<and> (addedLines fd, removedLines fd)
         = extractHunks (parseHunks (split_on newline chunk)) ([], [])"
  using assms
  by (auto simp: parseFileChunk_def Let_def split: option.splits if_splits prod.splits)

lemma parseFileChunk_binary:
  assumes "parseFileChunk chunk = Some fd" and "isBinary fd"
  shows "hunks fd = [] \<and> addedLines fd = [] \<and> removedLines fd = []"
  using assms
  by (auto simp: parseFileChunk_def Let_def split: option.splits if_splits prod.splits)

lemma parseDiff_chunk:
  assumes "fd \<in> set (parseDiff diffText)"
  shows "\<exists>chunk. chunk \<in> set (splitIntoFileChunks diffText) \<and> parseFileChunk chunk = Some fd"
  using assms
  by (auto simp: parseDiff_def List.map_filter_def split: if_splits)

lemma parseFileChunk_flag:
  assumes "parseFileChunk chunk = Some fd"
  shows "isBinary fd = binaryMarked (split_on newline chunk)"
  using assms
  by (auto simp: parseFileChunk_def binaryMarked_def [symmetric] Let_def
      split: option.splits if_splits prod.splits)

lemma parseFileChunk_None_find:
  "parseFileChunk chunk = None
     \<longleftrightarrow> find (\<lambda>l. startsWith l ''diff --git '') (split_on newline chunk) = None"
  by (auto simp: parseFileChunk_def binaryMarked_def [symmetric] Let_def
      split: option.splits if_splits prod.splits)

lemma parseFileChunk_None:
  "parseFileChunk chunk = None
     \<longleftrightarrow> \<not> list_ex (\<lambda>l. startsWith l ''diff --git '') (split_on newline chunk)"
  by (auto simp: parseFileChunk_None_find find_None_iff list_ex_iff)

text \<open>
  C2 (amended). A chunk with no line that begins with \<^verbatim>\<open>diff --git \<close> gives no record. A
  chunk with a line that begins with \<^verbatim>\<open>Binary files \<close> or that holds \<^verbatim>\<open>GIT binary patch\<close>,
  be it an added line of a text file, gives a binary record with no hunks and no lines.
  In every other chunk the record is not binary and its added and removed lines are those
  of the one-pass bookkeeping with two counters set from each hunk header: inside a hunk
  a line beginning with \<^verbatim>\<open>+\<close> but not \<^verbatim>\<open>+++\<close> is an added line at the new counter, which
  then increments; a line beginning with \<^verbatim>\<open>-\<close> but not \<^verbatim>\<open>---\<close> is a removed line at the
  old counter, which then increments; a line beginning with a space increments both; the
  no-newline marker, a line beginning with \<^verbatim>\<open>+++\<close> or \<^verbatim>\<open>---\<close>, and any other line produce
  nothing and move no counter. A count missing from a hunk header is 1. The text of
  Scenario A parses to one record for \<^verbatim>\<open>f\<close> with removed line (1, old), added line
  (1, new), not binary, not renamed.
\<close>

theorem parseFileChunk_bookkeeping:
  "(parseFileChunk chunk = None)
     = (\<not> list_ex (\<lambda>l. startsWith l ''diff --git '') (split_on newline chunk))
   \<and> (binaryMarked (split_on newline chunk) \<longrightarrow>
        (\<forall>fd. parseFileChunk chunk = Some fd \<longrightarrow>
           isBinary fd \<and> addedLines fd = [] \<and> removedLines fd = [] \<and> hunks fd = []))
   \<and> (\<not> binaryMarked (split_on newline chunk) \<longrightarrow>
        (\<forall>fd. parseFileChunk chunk = Some fd \<longrightarrow>
           \<not> isBinary fd
           \<and> (addedLines fd, removedLines fd) = scanAmended (split_on newline chunk) None
           \<and> hunks fd = parseHunks (split_on newline chunk)))
   \<and> (\<forall>l os oc ns nc. hunkMatch l = Some (os, oc, ns, nc) \<longrightarrow>
        parseHunks [l] =
          [\<lparr> oldStart = os, oldCount = (case oc of Some c \<Rightarrow> c | None \<Rightarrow> 1),
             newStart = ns, newCount = (case nc of Some c \<Rightarrow> c | None \<Rightarrow> 1),
             hlines = [l] \<rparr>])
   \<and> hunkMatch ''@@ -3 +4 @@'' = Some (3, None, 4, None)
   \<and> parseHunks [''@@ -3 +4 @@''] =
       [\<lparr> oldStart = 3, oldCount = 1, newStart = 4, newCount = 1,
          hlines = [''@@ -3 +4 @@''] \<rparr>]
   \<and> parseDiff scenarioA =
       [\<lparr> filePath = ''f'', oldPath = None,
          addedLines = [\<lparr> lineNumber = 1, content = ''new'' \<rparr>],
          removedLines = [\<lparr> lineNumber = 1, content = ''old'' \<rparr>],
          hunks = [\<lparr> oldStart = 1, oldCount = 2, newStart = 1, newCount = 2,
                     hlines = [''@@ -1,2 +1,2 @@'', ''-old'', ''+new'', '' unchanged''] \<rparr>],
          isBinary = False, isRenamed = False \<rparr>]"
proof -
  have a: "hunkMatch ''@@ -3 +4 @@'' = Some (3, None, 4, None)"
    by code_simp
  have b: "parseHunks [''@@ -3 +4 @@''] =
         [\<lparr> oldStart = 3, oldCount = 1, newStart = 4, newCount = 1,
            hlines = [''@@ -3 +4 @@''] \<rparr>]"
    by code_simp
  have c: "parseDiff scenarioA =
         [\<lparr> filePath = ''f'', oldPath = None,
            addedLines = [\<lparr> lineNumber = 1, content = ''new'' \<rparr>],
            removedLines = [\<lparr> lineNumber = 1, content = ''old'' \<rparr>],
            hunks = [\<lparr> oldStart = 1, oldCount = 2, newStart = 1, newCount = 2,
                       hlines = [''@@ -1,2 +1,2 @@'', ''-old'', ''+new'', '' unchanged''] \<rparr>],
            isBinary = False, isRenamed = False \<rparr>]"
    by code_simp
  have d: "binaryMarked (split_on newline chunk) \<longrightarrow>
        (\<forall>fd. parseFileChunk chunk = Some fd \<longrightarrow>
           isBinary fd \<and> addedLines fd = [] \<and> removedLines fd = [] \<and> hunks fd = [])"
  proof (intro impI allI)
    fix fd
    assume m: "binaryMarked (split_on newline chunk)" and p: "parseFileChunk chunk = Some fd"
    from parseFileChunk_flag [OF p] m have bin: "isBinary fd"
      by simp
    with parseFileChunk_binary [OF p]
    show "isBinary fd \<and> addedLines fd = [] \<and> removedLines fd = [] \<and> hunks fd = []"
      by simp
  qed
  have e: "\<not> binaryMarked (split_on newline chunk) \<longrightarrow>
        (\<forall>fd. parseFileChunk chunk = Some fd \<longrightarrow>
           \<not> isBinary fd
           \<and> (addedLines fd, removedLines fd) = scanAmended (split_on newline chunk) None
           \<and> hunks fd = parseHunks (split_on newline chunk))"
  proof (intro impI allI)
    fix fd
    assume m: "\<not> binaryMarked (split_on newline chunk)" and p: "parseFileChunk chunk = Some fd"
    from parseFileChunk_flag [OF p] m have nb: "\<not> isBinary fd"
      by simp
    from parseFileChunk_textual [OF p nb]
    show "\<not> isBinary fd
           \<and> (addedLines fd, removedLines fd) = scanAmended (split_on newline chunk) None
           \<and> hunks fd = parseHunks (split_on newline chunk)"
      using nb by (simp add: two_passes_as_one)
  qed
  have f: "\<forall>l os oc ns nc. hunkMatch l = Some (os, oc, ns, nc) \<longrightarrow>
          parseHunks [l] =
            [\<lparr> oldStart = os, oldCount = (case oc of Some c \<Rightarrow> c | None \<Rightarrow> 1),
               newStart = ns, newCount = (case nc of Some c \<Rightarrow> c | None \<Rightarrow> 1),
               hlines = [l] \<rparr>]"
    by (simp add: parseHunks_def)
  from a b c d e f parseFileChunk_None [of chunk] show ?thesis
    by blast
qed

theorem parseFileChunk_bookkeeping_witness:
  "\<not> binaryMarked (split_on newline plusPlusDiff)
   \<and> (addedLines (the (parseFileChunk plusPlusDiff)),
       removedLines (the (parseFileChunk plusPlusDiff)))
     = scanAmended (split_on newline plusPlusDiff) None
   \<and> scanAmended (split_on newline plusPlusDiff) None
     = ([\<lparr> lineNumber = 2, content = ''c'' \<rparr>], [])
   \<and> binaryMarked (split_on newline binaryWordsDiff)
   \<and> isBinary (the (parseFileChunk binaryWordsDiff))
   \<and> addedLines (the (parseFileChunk binaryWordsDiff)) = []"
proof -
  have p: "parseFileChunk plusPlusDiff =
     Some \<lparr> filePath = ''f'', oldPath = None,
            addedLines = [\<lparr> lineNumber = 2, content = ''c'' \<rparr>], removedLines = [],
            hunks = [\<lparr> oldStart = 1, oldCount = 1, newStart = 1, newCount = 3,
                       hlines = [''@@ -1 +1,3 @@'', '' a'', ''+c''] \<rparr>],
            isBinary = False, isRenamed = False \<rparr>"
    by code_simp
  have q: "parseFileChunk binaryWordsDiff =
     Some \<lparr> filePath = ''f'', oldPath = None, addedLines = [], removedLines = [],
            hunks = [], isBinary = True, isRenamed = False \<rparr>"
    by code_simp
  have n: "\<not> binaryMarked (split_on newline plusPlusDiff)"
    by code_simp
  have m: "binaryMarked (split_on newline binaryWordsDiff)"
    by code_simp
  from parseFileChunk_bookkeeping [of plusPlusDiff] n p
  have 1: "(addedLines (the (parseFileChunk plusPlusDiff)),
       removedLines (the (parseFileChunk plusPlusDiff)))
     = scanAmended (split_on newline plusPlusDiff) None"
    by simp
  from parseFileChunk_bookkeeping [of binaryWordsDiff] m q
  have 2: "isBinary (the (parseFileChunk binaryWordsDiff))
      \<and> addedLines (the (parseFileChunk binaryWordsDiff)) = []"
    by simp
  from 1 have 3: "scanAmended (split_on newline plusPlusDiff) None
     = ([\<lparr> lineNumber = 2, content = ''c'' \<rparr>], [])"
    by (simp add: p)
  from n m 1 2 3 show ?thesis
    by simp
qed

theorem plus_plus_line_counterexample:
  "map addedLines (parseDiff plusPlusDiff) = [[\<lparr> lineNumber = 2, content = ''c'' \<rparr>]]
   \<and> fst (scanClaimed (split_on newline plusPlusDiff) None)
       = [\<lparr> lineNumber = 2, content = ''++b'' \<rparr>, \<lparr> lineNumber = 3, content = ''c'' \<rparr>]
   \<and> map addedLines (parseDiff binaryWordsDiff) = [[]]
   \<and> map isBinary (parseDiff binaryWordsDiff) = [True]
   \<and> fst (scanClaimed (split_on newline binaryWordsDiff) None)
       = [\<lparr> lineNumber = 2, content = ''GIT binary patch'' \<rparr>]"
  by code_simp


section \<open>Diff parser: line numbers\<close>

lemma extractLines_Cons:
  "extractLines (l # ls) (o', n, [], []) =
     (case extractLines [l] (o', n, [], []) of
        (o1, n1, a1, r1) \<Rightarrow>
          (case extractLines ls (o1, n1, [], []) of
             (o2, n2, A, R) \<Rightarrow> (o2, n2, a1 @ A, r1 @ R)))"
proof -
  obtain o1 n1 a1 r1 where one: "extractLines [l] (o', n, [], []) = (o1, n1, a1, r1)"
    by (cases "extractLines [l] (o', n, [], [])")
  have "extractLines ([l] @ ls) (o', n, [], []) = extractLines ls (extractLines [l] (o', n, [], []))"
    by (rule extractLines_append)
  then have step: "extractLines (l # ls) (o', n, [], []) = extractLines ls (o1, n1, a1, r1)"
    by (simp only: one append_Cons append_Nil)
  show ?thesis
    by (simp only: step one prod.case extractLines_acc [of ls o1 n1 a1 r1])
qed

lemma extractLines_one:
  assumes "extractLines [l] (o', n, [], []) = (o1, n1, a1, r1)"
  shows "o' \<le> o1 \<and> n \<le> n1 \<and> length a1 \<le> 1 \<and> length r1 \<le> 1
     \<and> (\<forall>e\<in>set a1. lineNumber e = n \<and> n < n1)
     \<and> (\<forall>e\<in>set r1. lineNumber e = o' \<and> o' < o1)"
  using assms by (auto split: if_splits)

lemma extractLines_bounds:
  assumes "extractLines ls (o', n, [], []) = (o2, n2, A, R)"
  shows "o' \<le> o2 \<and> n \<le> n2 \<and> increasing A \<and> increasing R
     \<and> (\<forall>e\<in>set A. n \<le> lineNumber e \<and> lineNumber e < n2)
     \<and> (\<forall>e\<in>set R. o' \<le> lineNumber e \<and> lineNumber e < o2)"
  using assms
proof (induction ls arbitrary: o' n o2 n2 A R)
  case Nil
  then show ?case by (simp add: increasing_def)
next
  case (Cons l ls)
  obtain o1 n1 a1 r1 where one: "extractLines [l] (o', n, [], []) = (o1, n1, a1, r1)"
    by (cases "extractLines [l] (o', n, [], [])")
  obtain o3 n3 A3 R3 where rest: "extractLines ls (o1, n1, [], []) = (o3, n3, A3, R3)"
    by (cases "extractLines ls (o1, n1, [], [])")
  from Cons.prems have "(o3, n3, a1 @ A3, r1 @ R3) = (o2, n2, A, R)"
    by (simp only: extractLines_Cons [of l ls o' n] one rest prod.case)
  then have eq: "o2 = o3" "n2 = n3" "A = a1 @ A3" "R = r1 @ R3"
    by simp_all
  note s = extractLines_one [OF one]
  note t = Cons.IH [OF rest]
  have ia: "increasing a1" and ir: "increasing r1"
    using s by (simp_all add: increasing_def sorted_wrt01)
  have "increasing (a1 @ A3)"
    using ia s t by (fastforce simp: increasing_def sorted_wrt_append)
  moreover have "increasing (r1 @ R3)"
    using ir s t by (fastforce simp: increasing_def sorted_wrt_append)
  moreover have "\<forall>e\<in>set (a1 @ A3). n \<le> lineNumber e \<and> lineNumber e < n3"
    using s t by fastforce
  moreover have "\<forall>e\<in>set (r1 @ R3). o' \<le> lineNumber e \<and> lineNumber e < o3"
    using s t by fastforce
  moreover have "o' \<le> o3" "n \<le> n3"
    using s t by simp_all
  ultimately show ?case
    by (simp add: eq)
qed

lemma hunk_bounds:
  "oldStart h \<le> fst (hunkEnd h) \<and> newStart h \<le> snd (hunkEnd h)
   \<and> increasing (hunkAdded h) \<and> increasing (hunkRemoved h)
   \<and> (\<forall>e\<in>set (hunkAdded h). newStart h \<le> lineNumber e \<and> lineNumber e < snd (hunkEnd h))
   \<and> (\<forall>e\<in>set (hunkRemoved h). oldStart h \<le> lineNumber e \<and> lineNumber e < fst (hunkEnd h))"
proof -
  obtain o2 n2 A R where
    run: "extractLines (hlines h) (oldStart h, newStart h, [], []) = (o2, n2, A, R)"
    by (cases "extractLines (hlines h) (oldStart h, newStart h, [], [])")
  show ?thesis
    using extractLines_bounds [OF run] hunk_parts [OF run] by simp
qed

lemma hunksInOrder_tail: "hunksInOrder (h # hs) \<Longrightarrow> hunksInOrder hs"
  by (cases hs) simp_all

lemma hunksInOrder_later:
  "hunksInOrder (h # hs) \<Longrightarrow> h' \<in> set hs
   \<Longrightarrow> fst (hunkEnd h) \<le> oldStart h' \<and> snd (hunkEnd h) \<le> newStart h'"
proof (induction hs arbitrary: h)
  case Nil
  then show ?case by simp
next
  case (Cons h2 hs)
  show ?case
  proof (cases "h' = h2")
    case True
    with Cons.prems show ?thesis by simp
  next
    case False
    with Cons.prems have "h' \<in> set hs" and "hunksInOrder (h2 # hs)"
      by simp_all
    then have "fst (hunkEnd h2) \<le> oldStart h' \<and> snd (hunkEnd h2) \<le> newStart h'"
      using Cons.IH by blast
    moreover have "fst (hunkEnd h) \<le> oldStart h2 \<and> snd (hunkEnd h) \<le> newStart h2"
      using Cons.prems by simp
    moreover have "oldStart h2 \<le> fst (hunkEnd h2) \<and> newStart h2 \<le> snd (hunkEnd h2)"
      using hunk_bounds [of h2] by simp
    ultimately show ?thesis by linarith
  qed
qed

lemma hunksInOrder_increasing:
  "hunksInOrder hs \<Longrightarrow>
     increasing (concat (map hunkAdded hs)) \<and> increasing (concat (map hunkRemoved hs))"
proof (induction hs)
  case Nil
  show ?case by (simp add: increasing_def)
next
  case (Cons h hs)
  from Cons.prems have tl: "hunksInOrder hs"
    by (rule hunksInOrder_tail)
  note ih = Cons.IH [OF tl]
  have a: "lineNumber x < lineNumber y"
    if "x \<in> set (hunkAdded h)" "h' \<in> set hs" "y \<in> set (hunkAdded h')" for x y h'
  proof -
    have "lineNumber x < snd (hunkEnd h)"
      using hunk_bounds [of h] that(1) by simp
    also have "\<dots> \<le> newStart h'"
      using hunksInOrder_later [OF Cons.prems that(2)] by simp
    also have "\<dots> \<le> lineNumber y"
      using hunk_bounds [of h'] that(3) by simp
    finally show ?thesis .
  qed
  have r: "lineNumber x < lineNumber y"
    if "x \<in> set (hunkRemoved h)" "h' \<in> set hs" "y \<in> set (hunkRemoved h')" for x y h'
  proof -
    have "lineNumber x < fst (hunkEnd h)"
      using hunk_bounds [of h] that(1) by simp
    also have "\<dots> \<le> oldStart h'"
      using hunksInOrder_later [OF Cons.prems that(2)] by simp
    also have "\<dots> \<le> lineNumber y"
      using hunk_bounds [of h'] that(3) by simp
    finally show ?thesis .
  qed
  have "increasing (hunkAdded h @ concat (map hunkAdded hs))"
    using ih hunk_bounds [of h] a
    by (auto simp: increasing_def sorted_wrt_append)
  moreover have "increasing (hunkRemoved h @ concat (map hunkRemoved hs))"
    using ih hunk_bounds [of h] r
    by (auto simp: increasing_def sorted_wrt_append)
  ultimately show ?case by simp
qed

lemma collectHunks_headers:
  assumes "case cur of Some h \<Rightarrow> hlines h \<noteq> [] | None \<Rightarrow> True"
  shows "map header (finish (collectHunks ls (hs, cur)))
     = map header (finish (hs, cur)) @ filter (\<lambda>l. hunkMatch l \<noteq> None) ls"
  using assms
proof (induction ls arbitrary: hs cur)
  case Nil
  show ?case by simp
next
  case (Cons l ls)
  show ?case
  proof (cases "hunkMatch l")
    case (Some m)
    obtain os oc ns nc where m: "m = (os, oc, ns, nc)"
      by (cases m)
    define hn where "hn = \<lparr> oldStart = os, oldCount = (case oc of Some c \<Rightarrow> c | None \<Rightarrow> 1),
        newStart = ns, newCount = (case nc of Some c \<Rightarrow> c | None \<Rightarrow> 1), hlines = [l] \<rparr>"
    define hs' where "hs' = (case cur of Some h \<Rightarrow> hs @ [h] | None \<Rightarrow> hs)"
    have step: "collectHunks (l # ls) (hs, cur) = collectHunks ls (hs', Some hn)"
      by (simp add: Some m hn_def hs'_def)
    have "map header (finish (collectHunks ls (hs', Some hn)))
        = map header (finish (hs', Some hn)) @ filter (\<lambda>l. hunkMatch l \<noteq> None) ls"
      by (rule Cons.IH) (simp add: hn_def)
    moreover have "map header (finish (hs', Some hn)) = map header (finish (hs, cur)) @ [l]"
      by (cases cur) (simp_all add: finish_def hs'_def hn_def header_def)
    ultimately show ?thesis
      by (simp only: step) (simp add: Some m)
  next
    case None
    show ?thesis
    proof (cases cur)
      case None
      have "map header (finish (collectHunks ls (hs, None)))
          = map header (finish (hs, None)) @ filter (\<lambda>l. hunkMatch l \<noteq> None) ls"
        by (rule Cons.IH) simp
      then show ?thesis
        using \<open>hunkMatch l = None\<close> by (simp add: None)
    next
      case (Some h)
      with Cons.prems have ne: "hlines h \<noteq> []"
        by simp
      define h' where "h' = h\<lparr>hlines := hlines h @ [l]\<rparr>"
      have same: "map header (finish (hs, Some h')) = map header (finish (hs, Some h))"
        using ne by (simp add: header_def finish_def h'_def)
      have step: "collectHunks (l # ls) (hs, cur) = collectHunks ls (hs, Some h')
          \<or> collectHunks (l # ls) (hs, cur) = collectHunks ls (hs, Some h)"
        using \<open>hunkMatch l = None\<close> by (simp add: Some h'_def)
      have 1: "map header (finish (collectHunks ls (hs, Some h')))
          = map header (finish (hs, Some h')) @ filter (\<lambda>l. hunkMatch l \<noteq> None) ls"
        by (rule Cons.IH) (simp add: h'_def)
      have 2: "map header (finish (collectHunks ls (hs, Some h)))
          = map header (finish (hs, Some h)) @ filter (\<lambda>l. hunkMatch l \<noteq> None) ls"
        by (rule Cons.IH) (simp add: ne)
      from step show ?thesis
      proof
        assume "collectHunks (l # ls) (hs, cur) = collectHunks ls (hs, Some h')"
        then show ?thesis
          using 1 same \<open>hunkMatch l = None\<close> by (simp add: Some)
      next
        assume "collectHunks (l # ls) (hs, cur) = collectHunks ls (hs, Some h)"
        then show ?thesis
          using 2 \<open>hunkMatch l = None\<close> by (simp add: Some)
      qed
    qed
  qed
qed

lemma parseHunks_headers:
  "map header (parseHunks ls) = filter (\<lambda>l. hunkMatch l \<noteq> None) ls"
  using collectHunks_headers [of None ls "[]"]
  by (simp add: parseHunks_finish finish_def)

lemma parseFileChunk_concat:
  assumes "parseFileChunk chunk = Some fd"
  shows "addedLines fd = concat (map hunkAdded (hunks fd))
     \<and> removedLines fd = concat (map hunkRemoved (hunks fd))"
proof (cases "isBinary fd")
  case True
  then show ?thesis
    using parseFileChunk_binary [OF assms] by simp
next
  case False
  then show ?thesis
    using parseFileChunk_textual [OF assms] by (simp add: extractHunks_concat)
qed

text \<open>
  C8 (amended). In every record the parser produces, the added lines and the removed
  lines are the concatenation, hunk by hunk, of what each hunk contributes, and within
  one hunk their line numbers are strictly increasing; over the whole record they are
  strictly increasing when the hunks are in order, each starting in both numberings at or
  after the line where the counters of the hunk before it ended. The hunks are listed in
  the order of their headers in the text of the chunk.
\<close>

theorem parseDiff_line_numbers:
  assumes "fd \<in> set (parseDiff diffText)"
  shows "addedLines fd = concat (map hunkAdded (hunks fd))
     \<and> removedLines fd = concat (map hunkRemoved (hunks fd))
     \<and> (\<forall>h\<in>set (hunks fd).
          sorted_wrt (<) (map lineNumber (hunkAdded h))
          \<and> sorted_wrt (<) (map lineNumber (hunkRemoved h)))
     \<and> (hunksInOrder (hunks fd) \<longrightarrow>
          sorted_wrt (<) (map lineNumber (addedLines fd))
          \<and> sorted_wrt (<) (map lineNumber (removedLines fd)))
     \<and> (\<exists>chunk. chunk \<in> set (splitIntoFileChunks diffText)
          \<and> parseFileChunk chunk = Some fd
          \<and> map header (hunks fd) =
              (if isBinary fd then []
               else filter (\<lambda>l. hunkMatch l \<noteq> None) (split_on newline chunk)))"
proof -
  from parseDiff_chunk [OF assms] obtain chunk where
    chunk: "chunk \<in> set (splitIntoFileChunks diffText)" "parseFileChunk chunk = Some fd"
    by blast
  note cc = parseFileChunk_concat [OF chunk(2)]
  have per: "\<forall>h\<in>set (hunks fd).
          sorted_wrt (<) (map lineNumber (hunkAdded h))
          \<and> sorted_wrt (<) (map lineNumber (hunkRemoved h))"
    using hunk_bounds by (simp add: increasing_def)
  have whole: "hunksInOrder (hunks fd) \<longrightarrow>
          sorted_wrt (<) (map lineNumber (addedLines fd))
          \<and> sorted_wrt (<) (map lineNumber (removedLines fd))"
    using hunksInOrder_increasing [of "hunks fd"] cc by (simp add: increasing_def)
  have hdrs: "map header (hunks fd) =
              (if isBinary fd then []
               else filter (\<lambda>l. hunkMatch l \<noteq> None) (split_on newline chunk))"
  proof (cases "isBinary fd")
    case True
    then show ?thesis
      using parseFileChunk_binary [OF chunk(2)] by simp
  next
    case False
    then show ?thesis
      using parseFileChunk_textual [OF chunk(2)] by (simp add: parseHunks_headers)
  qed
  from cc per whole chunk hdrs show ?thesis by blast
qed

theorem parseDiff_line_numbers_witness:
  "map (map lineNumber \<circ> addedLines) (parseDiff twoHunkDiff) = [[2, 8]]
   \<and> map (map lineNumber \<circ> removedLines) (parseDiff twoHunkDiff) = [[2]]
   \<and> hunksInOrder (hunks (hd (parseDiff twoHunkDiff)))
   \<and> sorted_wrt (<) (map lineNumber (addedLines (hd (parseDiff twoHunkDiff))))
   \<and> sorted_wrt (<) (map lineNumber (removedLines (hd (parseDiff twoHunkDiff))))"
proof -
  have p: "parseDiff twoHunkDiff =
     [\<lparr> filePath = ''f'', oldPath = None,
        addedLines = [\<lparr> lineNumber = 2, content = ''c'' \<rparr>, \<lparr> lineNumber = 8, content = ''e'' \<rparr>],
        removedLines = [\<lparr> lineNumber = 2, content = ''b'' \<rparr>],
        hunks = [\<lparr> oldStart = 1, oldCount = 2, newStart = 1, newCount = 2,
                   hlines = [''@@ -1,2 +1,2 @@'', '' a'', ''-b'', ''+c''] \<rparr>,
                 \<lparr> oldStart = 7, oldCount = 1, newStart = 7, newCount = 2,
                   hlines = [''@@ -7 +7,2 @@'', '' d'', ''+e''] \<rparr>],
        isBinary = False, isRenamed = False \<rparr>]"
    by code_simp
  have m: "hd (parseDiff twoHunkDiff) \<in> set (parseDiff twoHunkDiff)"
    by (simp add: p)
  have o: "hunksInOrder (hunks (hd (parseDiff twoHunkDiff)))"
    unfolding p by code_simp
  from parseDiff_line_numbers [OF m] o
  have "sorted_wrt (<) (map lineNumber (addedLines (hd (parseDiff twoHunkDiff))))
      \<and> sorted_wrt (<) (map lineNumber (removedLines (hd (parseDiff twoHunkDiff))))"
    by blast
  then show ?thesis
    using o by (simp add: p)
qed

theorem backwards_hunks_counterexample:
  "map (map lineNumber \<circ> addedLines) (parseDiff backwardsDiff) = [[6, 2]]
   \<and> \<not> sorted_wrt (<) (map lineNumber (addedLines (hd (parseDiff backwardsDiff))))"
  by code_simp



section \<open>File matcher\<close>

lemma buildMap_other: "p \<notin> npath ` set ds \<Longrightarrow> buildMap ds m p = m p"
  by (induction ds arbitrary: m) (auto simp: npath_def)

lemma buildMap_Some:
  "buildMap ds m p = Some d \<Longrightarrow> (d \<in> set ds \<and> npath d = p) \<or> m p = Some d"
proof (induction ds arbitrary: m)
  case Nil
  then show ?case by simp
next
  case (Cons x ds)
  from Cons.prems have "buildMap ds (m(npath x \<mapsto> x)) p = Some d"
    by (simp add: npath_def)
  from Cons.IH [OF this] show ?case
    by (auto split: if_splits)
qed

lemma buildMap_None: "buildMap ds Map.empty p = None \<longleftrightarrow> p \<notin> npath ` set ds"
proof
  assume "buildMap ds Map.empty p = None"
  have "buildMap ds m p \<noteq> None" if "p \<in> npath ` set ds" for m
    using that
  proof (induction ds arbitrary: m)
    case Nil
    then show ?case by simp
  next
    case (Cons x ds)
    show ?case
    proof (cases "p \<in> npath ` set ds")
      case True
      then show ?thesis
        using Cons.IH by simp
    next
      case False
      with Cons.prems have "p = npath x"
        by simp
      then show ?thesis
        using buildMap_other [OF False, of "m(npath x \<mapsto> x)"] by (simp add: npath_def)
    qed
  qed
  with \<open>buildMap ds Map.empty p = None\<close> show "p \<notin> npath ` set ds"
    by blast
next
  assume "p \<notin> npath ` set ds"
  then show "buildMap ds Map.empty p = None"
    by (simp add: buildMap_other)
qed

lemma buildMap_defined:
  "(\<exists>y. buildMap ds Map.empty p = Some y) \<longleftrightarrow> p \<in> npath ` set ds"
  using buildMap_None [of ds p] by (cases "buildMap ds Map.empty p") simp_all

lemma buildMap_distinct:
  "distinct (map npath ds) \<Longrightarrow> d \<in> set ds \<Longrightarrow> buildMap ds m (npath d) = Some d"
proof (induction ds arbitrary: m)
  case Nil
  then show ?case by simp
next
  case (Cons x ds)
  show ?case
  proof (cases "d \<in> set ds")
    case True
    with Cons show ?thesis by simp
  next
    case False
    with Cons.prems have dx: "d = x" and "npath x \<notin> npath ` set ds"
      by auto
    then show ?thesis
      using buildMap_other [of "npath x" ds "m(npath x \<mapsto> x)"] by (simp add: npath_def)
  qed
qed

lemma matchLoop_eq:
  "matchLoop mm gs (ma, mi, ps) =
     (ma @ map (\<lambda>g. \<lparr> golden = g, migration = the (mm (npath g)) \<rparr>)
             (filter (\<lambda>g. mm (npath g) \<noteq> None) gs),
      mi @ filter (\<lambda>g. mm (npath g) = None) gs,
      ps \<union> npath ` {g \<in> set gs. mm (npath g) \<noteq> None})"
  by (induction gs arbitrary: ma mi ps) (auto simp: Let_def npath_def)

lemma matchFiles_eq:
  "matchFiles G M =
     \<lparr> matched = map (\<lambda>g. \<lparr> golden = g, migration = the (buildMap (kept M) Map.empty (npath g)) \<rparr>)
                   (filter (\<lambda>g. npath g \<in> npath ` set (kept M)) (kept G)),
       missedFiles = filter (\<lambda>g. npath g \<notin> npath ` set (kept M)) (kept G),
       extraFiles = filter (\<lambda>d. npath d \<notin> npath ` set (kept G)) (kept M) \<rparr>"
proof -
  have "npath d \<notin> npath ` {g \<in> set (kept G). npath g \<in> npath ` set (kept M)}
      \<longleftrightarrow> npath d \<notin> npath ` set (kept G)" if "d \<in> set (kept M)" for d
  proof
    assume l: "npath d \<notin> npath ` {g \<in> set (kept G). npath g \<in> npath ` set (kept M)}"
    show "npath d \<notin> npath ` set (kept G)"
    proof
      assume "npath d \<in> npath ` set (kept G)"
      then obtain g where g: "g \<in> set (kept G)" "npath g = npath d"
        by auto
      with that have "npath g \<in> npath ` set (kept M)"
        by auto
      with g(1) have "g \<in> {g \<in> set (kept G). npath g \<in> npath ` set (kept M)}"
        by simp
      then have "npath g \<in> npath ` {g \<in> set (kept G). npath g \<in> npath ` set (kept M)}"
        by (rule imageI)
      with l g(2) show False by simp
    qed
  next
    assume "npath d \<notin> npath ` set (kept G)"
    then show "npath d \<notin> npath ` {g \<in> set (kept G). npath g \<in> npath ` set (kept M)}"
      by auto
  qed
  then have "filter (\<lambda>d. npath d \<notin> npath ` {g \<in> set (kept G). npath g \<in> npath ` set (kept M)})
        (kept M) = filter (\<lambda>d. npath d \<notin> npath ` set (kept G)) (kept M)"
    by (intro filter_cong refl) blast
  then show ?thesis
    by (simp add: matchFiles_def Let_def matchLoop_eq buildMap_None buildMap_defined
        kept_def [symmetric] npath_def [symmetric])
qed

lemma matched_golden:
  "golden ` set (matched (matchFiles G M)) =
     {g \<in> set (kept G). npath g \<in> npath ` set (kept M)}"
  by (auto simp: matchFiles_eq image_iff)

lemma matched_migration:
  assumes "c \<in> migration ` set (matched (matchFiles G M))"
  shows "c \<in> set (kept M) \<and> npath c \<in> npath ` set (kept G)"
proof -
  from assms obtain g where g: "g \<in> set (kept G)" "npath g \<in> npath ` set (kept M)"
      and c: "c = the (buildMap (kept M) Map.empty (npath g))"
    by (auto simp: matchFiles_eq)
  from g(2) obtain d where d: "buildMap (kept M) Map.empty (npath g) = Some d"
    using buildMap_None [of "kept M" "npath g"] by auto
  from buildMap_Some [OF d] have "d \<in> set (kept M)" "npath d = npath g"
    by simp_all
  with c d g(1) show ?thesis
    by auto
qed

lemma matched_migration_distinct:
  assumes "distinct (map npath (kept M))" and "c \<in> set (kept M)"
    and "npath c \<in> npath ` set (kept G)"
  shows "c \<in> migration ` set (matched (matchFiles G M))"
proof -
  from assms(3) obtain g where g: "g \<in> set (kept G)" "npath g = npath c"
    by auto
  have "buildMap (kept M) Map.empty (npath g) = Some c"
    using buildMap_distinct [OF assms(1,2)] g(2) by simp
  moreover have "npath g \<in> npath ` set (kept M)"
    using assms(2) g(2) by auto
  ultimately have "\<lparr> golden = g, migration = c \<rparr> \<in> set (matched (matchFiles G M))"
    using g(1) by (auto simp: matchFiles_eq image_iff)
  then show ?thesis
    by force
qed

lemma kept_iff: "d \<in> set (kept ds) \<longleftrightarrow> d \<in> set ds \<and> \<not> isExcluded (filePath d)"
  by (simp add: kept_def)

lemma find_append_opt:
  "find P (xs @ ys) = (case find P xs of None \<Rightarrow> find P ys | Some x \<Rightarrow> Some x)"
  by (induction xs) simp_all

lemma buildMap_find:
  "buildMap ds m p =
     (case find (\<lambda>d. npath d = p) (rev ds) of Some d \<Rightarrow> Some d | None \<Rightarrow> m p)"
proof (induction ds arbitrary: m)
  case Nil
  show ?case by simp
next
  case (Cons x ds)
  have "buildMap (x # ds) m p = buildMap ds (m(npath x \<mapsto> x)) p"
    by (simp add: npath_def)
  also have "\<dots> = (case find (\<lambda>d. npath d = p) (rev ds) of
      Some d \<Rightarrow> Some d | None \<Rightarrow> (m(npath x \<mapsto> x)) p)"
    by (rule Cons.IH)
  also have "\<dots> = (case find (\<lambda>d. npath d = p) (rev (x # ds)) of
      Some d \<Rightarrow> Some d | None \<Rightarrow> m p)"
    by (auto simp: find_append_opt split: option.splits)
  finally show ?case .
qed

lemma buildMap_last: "buildMap (kept M) Map.empty p = lastWithPath M p"
  by (simp add: buildMap_find lastWithPath_def split: option.splits)

lemma matched_migration_iff:
  "c \<in> migration ` set (matched (matchFiles G M))
     \<longleftrightarrow> npath c \<in> npath ` set (kept G) \<and> lastWithPath M (npath c) = Some c"
proof
  assume m: "c \<in> migration ` set (matched (matchFiles G M))"
  then obtain g where g: "g \<in> set (kept G)" "npath g \<in> npath ` set (kept M)"
      and c: "c = the (buildMap (kept M) Map.empty (npath g))"
    by (auto simp: matchFiles_eq)
  from g(2) obtain d where d: "buildMap (kept M) Map.empty (npath g) = Some d"
    using buildMap_None [of "kept M" "npath g"] by auto
  from buildMap_Some [OF d] have "npath d = npath g"
    by simp
  with c d g(1) show "npath c \<in> npath ` set (kept G) \<and> lastWithPath M (npath c) = Some c"
    by (auto simp: buildMap_last [symmetric])
next
  assume a: "npath c \<in> npath ` set (kept G) \<and> lastWithPath M (npath c) = Some c"
  then obtain g where g: "g \<in> set (kept G)" "npath g = npath c"
    by auto
  from a have b: "buildMap (kept M) Map.empty (npath g) = Some c"
    by (simp add: buildMap_last g(2))
  then have "npath g \<in> npath ` set (kept M)"
    using buildMap_None [of "kept M" "npath g"] by auto
  with g(1) b have "\<lparr> golden = g, migration = c \<rparr> \<in> set (matched (matchFiles G M))"
    by (auto simp: matchFiles_eq image_iff)
  then show "c \<in> migration ` set (matched (matchFiles G M))"
    by force
qed

lemma extra_iff:
  "c \<in> set (extraFiles (matchFiles G M))
     \<longleftrightarrow> c \<in> set (kept M) \<and> npath c \<notin> npath ` set (kept G)"
  by (auto simp: matchFiles_eq)

text \<open>
  C3 (amended). The Match Result of \<^verbatim>\<open>matchFiles\<close>: every golden record whose normalized
  path is not excluded appears in exactly one of matched and missed (the golden sides of
  the matched pairs and the missed files together are exactly the non-excluded golden
  records, occurrence by occurrence). A candidate record whose normalized path is not
  excluded is extra exactly when no non-excluded golden record has its normalized path,
  and is matched exactly when one has and the record is the last non-excluded candidate
  record of that path: so it appears in exactly one of matched and extra, except a
  shadowed record (a golden record has its path, and a later, different candidate record
  has that path too), which appears in neither. In particular every such candidate record
  appears in exactly one of the two when the non-excluded candidate records have pairwise
  different normalized paths. A record whose normalized path is excluded appears in none
  of the three collections.
\<close>

theorem matchFiles_partition:
  "(\<forall>g\<in>set golds. \<not> isExcluded (filePath g) \<longrightarrow>
      (g \<in> golden ` set (matched (matchFiles golds cands)))
        \<noteq> (g \<in> set (missedFiles (matchFiles golds cands))))
   \<and> mset (map golden (matched (matchFiles golds cands)))
       + mset (missedFiles (matchFiles golds cands))
       = mset (kept golds)
   \<and> (\<forall>c\<in>set cands. \<not> isExcluded (filePath c) \<longrightarrow>
        (c \<in> set (extraFiles (matchFiles golds cands)))
          = (npath c \<notin> npath ` set (kept golds)))
   \<and> (\<forall>c\<in>set cands. \<not> isExcluded (filePath c) \<longrightarrow>
        (c \<in> migration ` set (matched (matchFiles golds cands)))
          = (npath c \<in> npath ` set (kept golds) \<and> lastWithPath cands (npath c) = Some c))
   \<and> (\<forall>c\<in>set cands. \<not> isExcluded (filePath c) \<longrightarrow>
        (if shadowed golds cands c
         then c \<notin> migration ` set (matched (matchFiles golds cands))
              \<and> c \<notin> set (extraFiles (matchFiles golds cands))
         else (c \<in> migration ` set (matched (matchFiles golds cands)))
              \<noteq> (c \<in> set (extraFiles (matchFiles golds cands)))))
   \<and> (distinct (map npath (kept cands)) \<longrightarrow>
        (\<forall>c\<in>set cands. \<not> isExcluded (filePath c) \<longrightarrow>
           (c \<in> migration ` set (matched (matchFiles golds cands)))
             \<noteq> (c \<in> set (extraFiles (matchFiles golds cands)))))
   \<and> (\<forall>r. isExcluded (filePath r) \<longrightarrow>
        r \<notin> golden ` set (matched (matchFiles golds cands))
        \<and> r \<notin> migration ` set (matched (matchFiles golds cands))
        \<and> r \<notin> set (missedFiles (matchFiles golds cands))
        \<and> r \<notin> set (extraFiles (matchFiles golds cands)))"
proof -
  let ?G = golds and ?M = cands
  let ?mr = "matchFiles ?G ?M"
  have missed: "set (missedFiles ?mr) = {g \<in> set (kept ?G). npath g \<notin> npath ` set (kept ?M)}"
    by (auto simp: matchFiles_eq)
  have extra: "set (extraFiles ?mr) = {d \<in> set (kept ?M). npath d \<notin> npath ` set (kept ?G)}"
    by (auto simp: matchFiles_eq)
  have g1: "\<forall>g\<in>set ?G. \<not> isExcluded (filePath g) \<longrightarrow>
      (g \<in> golden ` set (matched ?mr)) \<noteq> (g \<in> set (missedFiles ?mr))"
    by (auto simp: matched_golden missed kept_iff)
  have "map golden (matched ?mr) = filter (\<lambda>g. npath g \<in> npath ` set (kept ?M)) (kept ?G)"
    by (simp add: matchFiles_eq comp_def)
  moreover have "missedFiles ?mr = filter (\<lambda>g. npath g \<notin> npath ` set (kept ?M)) (kept ?G)"
    by (simp add: matchFiles_eq)
  ultimately have g2: "mset (map golden (matched ?mr)) + mset (missedFiles ?mr) = mset (kept ?G)"
    by simp
  have x1: "\<forall>c\<in>set ?M. \<not> isExcluded (filePath c) \<longrightarrow>
        (c \<in> set (extraFiles ?mr)) = (npath c \<notin> npath ` set (kept ?G))"
    by (simp add: extra_iff kept_iff)
  have x2: "\<forall>c\<in>set ?M. \<not> isExcluded (filePath c) \<longrightarrow>
        (c \<in> migration ` set (matched ?mr))
          = (npath c \<in> npath ` set (kept ?G) \<and> lastWithPath ?M (npath c) = Some c)"
    by (simp add: matched_migration_iff)
  have x3: "\<forall>c\<in>set ?M. \<not> isExcluded (filePath c) \<longrightarrow>
        (if shadowed ?G ?M c
         then c \<notin> migration ` set (matched ?mr) \<and> c \<notin> set (extraFiles ?mr)
         else (c \<in> migration ` set (matched ?mr)) \<noteq> (c \<in> set (extraFiles ?mr)))"
  proof (intro ballI impI)
    fix c
    assume c: "c \<in> set ?M" "\<not> isExcluded (filePath c)"
    then have e: "(c \<in> set (extraFiles ?mr)) = (npath c \<notin> npath ` set (kept ?G))"
      using x1 by blast
    have m: "(c \<in> migration ` set (matched ?mr))
          = (npath c \<in> npath ` set (kept ?G) \<and> lastWithPath ?M (npath c) = Some c)"
      by (rule matched_migration_iff)
    show "if shadowed ?G ?M c
         then c \<notin> migration ` set (matched ?mr) \<and> c \<notin> set (extraFiles ?mr)
         else (c \<in> migration ` set (matched ?mr)) \<noteq> (c \<in> set (extraFiles ?mr))"
      unfolding e m shadowed_def by auto
  qed
  have c2: "distinct (map npath (kept ?M)) \<longrightarrow>
        (\<forall>c\<in>set ?M. \<not> isExcluded (filePath c) \<longrightarrow>
           (c \<in> migration ` set (matched ?mr)) \<noteq> (c \<in> set (extraFiles ?mr)))"
  proof (intro impI ballI)
    fix c
    assume d: "distinct (map npath (kept ?M))" and c: "c \<in> set ?M" "\<not> isExcluded (filePath c)"
    then have k: "c \<in> set (kept ?M)"
      by (simp add: kept_iff)
    show "(c \<in> migration ` set (matched ?mr)) \<noteq> (c \<in> set (extraFiles ?mr))"
    proof (cases "npath c \<in> npath ` set (kept ?G)")
      case True
      then have "c \<in> migration ` set (matched ?mr)"
        using matched_migration_distinct [OF d k] by simp
      moreover have "c \<notin> set (extraFiles ?mr)"
        using True by (simp add: extra)
      ultimately show ?thesis by simp
    next
      case False
      then have "c \<in> set (extraFiles ?mr)"
        using k by (simp add: extra)
      moreover have "c \<notin> migration ` set (matched ?mr)"
        using matched_migration [of c ?G ?M] False by blast
      ultimately show ?thesis by simp
    qed
  qed
  have e: "\<forall>r. isExcluded (filePath r) \<longrightarrow>
        r \<notin> golden ` set (matched ?mr) \<and> r \<notin> migration ` set (matched ?mr)
        \<and> r \<notin> set (missedFiles ?mr) \<and> r \<notin> set (extraFiles ?mr)"
    using matched_migration [of _ ?G ?M]
    by (auto simp: matched_golden missed extra kept_iff)
  from g1 g2 x1 x2 x3 c2 e show ?thesis
    by blast
qed

theorem matchFiles_partition_witness:
  "distinct (map npath (kept exampleMigration))
   \<and> matchFiles exampleGolden exampleMigration =
       \<lparr> matched = [\<lparr> golden = makeDiff ''a/src/App.tsx'' [] [],
                      migration = makeDiff ''b/src/App.tsx'' [] [] \<rparr>],
         missedFiles = [makeDiff ''src/utils.ts'' [] []],
         extraFiles = [makeDiff ''src/extra.ts'' [] []] \<rparr>
   \<and> (makeDiff ''b/src/App.tsx'' [] []
        \<in> migration ` set (matched (matchFiles exampleGolden exampleMigration)))
       \<noteq> (makeDiff ''b/src/App.tsx'' [] []
        \<in> set (extraFiles (matchFiles exampleGolden exampleMigration)))
   \<and> makeDiff ''yarn.lock'' [] []
        \<notin> set (extraFiles (matchFiles exampleGolden exampleMigration))
   \<and> \<not> shadowed [makeDiff ''y'' [] []] sharedPath (makeDiff ''a/x'' [] [])
   \<and> (makeDiff ''a/x'' [] []
        \<in> migration ` set (matched (matchFiles [makeDiff ''y'' [] []] sharedPath)))
       \<noteq> (makeDiff ''a/x'' [] []
        \<in> set (extraFiles (matchFiles [makeDiff ''y'' [] []] sharedPath)))
   \<and> extraFiles (matchFiles [makeDiff ''y'' [] []] sharedPath) = sharedPath
   \<and> shadowed [makeDiff ''x'' [] []] sharedPath (makeDiff ''a/x'' [] [])
   \<and> makeDiff ''a/x'' [] []
        \<notin> migration ` set (matched (matchFiles [makeDiff ''x'' [] []] sharedPath))
   \<and> makeDiff ''a/x'' [] []
        \<notin> set (extraFiles (matchFiles [makeDiff ''x'' [] []] sharedPath))"
proof -
  have d: "distinct (map npath (kept exampleMigration))"
    by code_simp
  have m: "makeDiff ''b/src/App.tsx'' [] [] \<in> set exampleMigration"
    by (simp add: exampleMigration_def)
  have n: "\<not> isExcluded (filePath (makeDiff ''b/src/App.tsx'' [] []))"
    by code_simp
  have y: "isExcluded (filePath (makeDiff ''yarn.lock'' [] []))"
    by code_simp
  have v: "matchFiles exampleGolden exampleMigration =
       \<lparr> matched = [\<lparr> golden = makeDiff ''a/src/App.tsx'' [] [],
                      migration = makeDiff ''b/src/App.tsx'' [] [] \<rparr>],
         missedFiles = [makeDiff ''src/utils.ts'' [] []],
         extraFiles = [makeDiff ''src/extra.ts'' [] []] \<rparr>"
    by code_simp
  from matchFiles_partition [of exampleGolden exampleMigration] d m n y
  have 1: "(makeDiff ''b/src/App.tsx'' [] []
        \<in> migration ` set (matched (matchFiles exampleGolden exampleMigration)))
       \<noteq> (makeDiff ''b/src/App.tsx'' [] []
        \<in> set (extraFiles (matchFiles exampleGolden exampleMigration)))
     \<and> makeDiff ''yarn.lock'' [] []
        \<notin> set (extraFiles (matchFiles exampleGolden exampleMigration))"
    by blast
  have s: "makeDiff ''a/x'' [] [] \<in> set sharedPath"
    by (simp add: sharedPath_def)
  have t: "\<not> isExcluded (filePath (makeDiff ''a/x'' [] []))"
    by code_simp
  have f: "\<not> shadowed [makeDiff ''y'' [] []] sharedPath (makeDiff ''a/x'' [] [])"
    by code_simp
  have g: "shadowed [makeDiff ''x'' [] []] sharedPath (makeDiff ''a/x'' [] [])"
    by code_simp
  from matchFiles_partition [of "[makeDiff ''y'' [] []]" sharedPath] s t f
  have 2: "(makeDiff ''a/x'' [] []
        \<in> migration ` set (matched (matchFiles [makeDiff ''y'' [] []] sharedPath)))
       \<noteq> (makeDiff ''a/x'' [] []
        \<in> set (extraFiles (matchFiles [makeDiff ''y'' [] []] sharedPath)))"
    by meson
  from matchFiles_partition [of "[makeDiff ''x'' [] []]" sharedPath] s t g
  have 3: "makeDiff ''a/x'' [] []
        \<notin> migration ` set (matched (matchFiles [makeDiff ''x'' [] []] sharedPath))
     \<and> makeDiff ''a/x'' [] []
        \<notin> set (extraFiles (matchFiles [makeDiff ''x'' [] []] sharedPath))"
    by meson
  have 4: "extraFiles (matchFiles [makeDiff ''y'' [] []] sharedPath) = sharedPath"
    by code_simp
  from d v 1 2 3 4 f g show ?thesis
    by blast
qed

theorem shared_path_counterexample:
  "matchFiles [makeDiff ''x'' [] []]
     [makeDiff ''a/x'' [] [], makeDiff ''x'' [makeLine 1 ''y''] []] =
     \<lparr> matched = [\<lparr> golden = makeDiff ''x'' [] [],
                    migration = makeDiff ''x'' [makeLine 1 ''y''] [] \<rparr>],
       missedFiles = [], extraFiles = [] \<rparr>
   \<and> \<not> isExcluded (filePath (makeDiff ''a/x'' [] []))
   \<and> makeDiff ''a/x'' [] [] \<noteq> makeDiff ''x'' [makeLine 1 ''y''] []"
  by code_simp


section \<open>Noise scanner\<close>

lemma trim_removeWhitespace: "trim (removeWhitespace s) = removeWhitespace s"
proof -
  have none: "dropWhile isSpace xs = xs" if "\<forall>c\<in>set xs. \<not> isSpace c" for xs
    using that by (cases xs) simp_all
  have "dropWhile isSpace (removeWhitespace s) = removeWhitespace s"
    by (rule none) (simp add: removeWhitespace_def)
  moreover have "dropWhile isSpace (rev (removeWhitespace s)) = rev (removeWhitespace s)"
    by (rule none) (simp add: removeWhitespace_def)
  ultimately show ?thesis
    by (simp add: trim_def)
qed

lemma sort_eq_iff_mset: "sort xs = sort ys \<longleftrightarrow> mset xs = mset ys"
proof
  assume "sort xs = sort ys"
  then have "mset (sort xs) = mset (sort ys)"
    by simp
  then show "mset xs = mset ys"
    by simp
next
  assume "mset xs = mset ys"
  then have "mset (sort ys) = mset xs"
    by simp
  then show "sort xs = sort ys"
    by (rule properties_for_sort) simp
qed

lemma all_nth_eq:
  assumes "length xs = n" and "length ys = n"
  shows "list_all (\<lambda>i. xs ! i = ys ! i) [0..<n] \<longleftrightarrow> xs = ys"
proof -
  have "xs = ys \<longleftrightarrow> (\<forall>i<n. xs ! i = ys ! i)"
    using assms by (metis nth_equalityI)
  then show ?thesis
    by (auto simp: list_all_iff)
qed

lemma isFormattingOnly_iff:
  "isFormattingOnly d \<longleftrightarrow>
     mset (map (\<lambda>l. removeWhitespace (content l)) (addedLines d))
       = mset (map (\<lambda>l. removeWhitespace (content l)) (removedLines d))"
proof (cases "length (removedLines d) = length (addedLines d)")
  case True
  then have "isFormattingOnly d \<longleftrightarrow>
      sort (map (\<lambda>l. removeWhitespace (content l)) (removedLines d))
        = sort (map (\<lambda>l. removeWhitespace (content l)) (addedLines d))"
    by (simp add: isFormattingOnly_def Let_def trim_removeWhitespace all_nth_eq)
  then show ?thesis
    by (auto simp: sort_eq_iff_mset)
next
  case False
  then have "\<not> isFormattingOnly d"
    by (simp add: isFormattingOnly_def Let_def)
  moreover have "mset (map (\<lambda>l. removeWhitespace (content l)) (addedLines d))
       \<noteq> mset (map (\<lambda>l. removeWhitespace (content l)) (removedLines d))"
  proof
    assume "mset (map (\<lambda>l. removeWhitespace (content l)) (addedLines d))
       = mset (map (\<lambda>l. removeWhitespace (content l)) (removedLines d))"
    then have "length (map (\<lambda>l. removeWhitespace (content l)) (addedLines d))
       = length (map (\<lambda>l. removeWhitespace (content l)) (removedLines d))"
      by (rule mset_eq_length)
    with False show False by simp
  qed
  ultimately show ?thesis by simp
qed

lemma formattingLoop_eq:
  "formattingLoop paths ds = map formattingInstance (filter (flagged paths) ds)"
  by (induction ds) (auto simp: flagged_def)

lemma filter_same_key:
  "distinct (map f xs) \<Longrightarrow> c \<in> set xs \<Longrightarrow> filter (\<lambda>x. f x = f c) xs = [c]"
proof (induction xs)
  case Nil
  then show ?case by simp
next
  case (Cons x xs)
  show ?case
  proof (cases "c = x")
    case True
    with Cons.prems have "f x \<notin> f ` set xs"
      by simp
    then have "filter (\<lambda>y. f y = f x) xs = []"
      by (simp add: filter_empty_conv) (metis imageI)
    with True show ?thesis by simp
  next
    case False
    with Cons.prems have "c \<in> set xs" "f x \<noteq> f c"
      by auto
    with Cons show ?thesis by simp
  qed
qed

lemma formatting_for_path:
  assumes "distinct (map filePath ds)" and "c \<in> set ds"
  shows "filter (\<lambda>i. nfile i = filePath c) (formattingLoop paths ds)
     = (if flagged paths c then [formattingInstance c] else [])"
proof -
  have "filter (\<lambda>i. nfile i = filePath c) (formattingLoop paths ds)
      = map formattingInstance
          (filter (flagged paths) (filter (\<lambda>d. filePath d = filePath c) ds))"
    by (simp add: formattingLoop_eq filter_map comp_def formattingInstance_def conj_commute)
  also have "filter (\<lambda>d. filePath d = filePath c) ds = [c]"
    using assms by (rule filter_same_key)
  finally show ?thesis by simp
qed

lemma formatting_types:
  "i \<in> set (detectFormattingOnlyChanges ds mr) \<Longrightarrow> ntype i = formatting_only"
  by (auto simp: detectFormattingOnlyChanges_def formattingLoop_eq formattingInstance_def)

lemma other_types:
  "i \<in> set (detectUnnecessaryChanges mr) \<Longrightarrow> ntype i = unnecessary_change"
  "i \<in> set (detectIncorrectMigrations rs) \<Longrightarrow> ntype i = incorrect_migration"
  "i \<in> set (detectArtifacts ds) \<Longrightarrow> ntype i = artifact"
  "i \<in> set (detectPlaceholderTokens ds) \<Longrightarrow> ntype i = placeholder_token"
  by (auto simp: detectUnnecessaryChanges_def detectIncorrectMigrations_def
      detectArtifacts_def artifactsOf_def detectPlaceholderTokens_def placeholdersOf_def
      split: if_splits)

lemma detectNoise_formatting:
  "filter (\<lambda>i. ntype i = formatting_only \<and> nfile i = p) (detectNoise inp)
     = filter (\<lambda>i. nfile i = p)
         (detectFormattingOnlyChanges (migrationDiffs inp) (nd_matchResult inp))"
proof -
  have a: "filter (\<lambda>i. ntype i = formatting_only \<and> nfile i = p)
      (detectUnnecessaryChanges (nd_matchResult inp)) = []"
    by (auto simp: filter_empty_conv dest: other_types)
  have b: "filter (\<lambda>i. ntype i = formatting_only \<and> nfile i = p)
      (detectIncorrectMigrations (detectionResults inp)) = []"
    by (auto simp: filter_empty_conv dest: other_types)
  have c: "filter (\<lambda>i. ntype i = formatting_only \<and> nfile i = p)
      (detectArtifacts (migrationDiffs inp)) = []"
    by (auto simp: filter_empty_conv dest: other_types)
  have d: "filter (\<lambda>i. ntype i = formatting_only \<and> nfile i = p)
      (detectPlaceholderTokens (migrationDiffs inp)) = []"
    by (auto simp: filter_empty_conv dest: other_types)
  have e: "filter (\<lambda>i. ntype i = formatting_only \<and> nfile i = p)
      (detectFormattingOnlyChanges (migrationDiffs inp) (nd_matchResult inp))
      = filter (\<lambda>i. nfile i = p)
          (detectFormattingOnlyChanges (migrationDiffs inp) (nd_matchResult inp))"
    by (rule filter_cong) (auto dest: formatting_types)
  show ?thesis
    by (simp add: detectNoise_def a b c d e)
qed

text \<open>
  C7 (amended). When no two candidate records have the same file path, the noise scanner
  emits for a matched candidate record exactly one \<^verbatim>\<open>formatting_only\<close> instance, of
  penalty 0.02, when the record has at least one added or removed line and its added
  lines and removed lines are the same after discarding all whitespace and sorting; it
  emits none when they differ, and none when the record has no added and no removed line.
\<close>

theorem formatting_only_instances:
  assumes "distinct (map filePath (migrationDiffs inp))"
    and "c \<in> set (migrationDiffs inp)"
    and "c \<in> migration ` set (matched (nd_matchResult inp))"
  shows "filter (\<lambda>i. ntype i = formatting_only \<and> nfile i = filePath c) (detectNoise inp) =
     (if (addedLines c \<noteq> [] \<or> removedLines c \<noteq> [])
         \<and> mset (map (\<lambda>l. removeWhitespace (content l)) (addedLines c))
             = mset (map (\<lambda>l. removeWhitespace (content l)) (removedLines c))
      then [\<lparr> ntype = formatting_only, nfile = filePath c, nline = None,
               description = ''Changes appear to be formatting/whitespace only'',
               penalty = 2 / 100 \<rparr>]
      else [])"
proof -
  let ?paths = "set (map (\<lambda>m. filePath (migration m)) (matched (nd_matchResult inp)))"
  from assms(3) have p: "filePath c \<in> ?paths"
    by auto
  have "filter (\<lambda>i. ntype i = formatting_only \<and> nfile i = filePath c) (detectNoise inp)
      = filter (\<lambda>i. nfile i = filePath c) (formattingLoop ?paths (migrationDiffs inp))"
    by (simp add: detectNoise_formatting detectFormattingOnlyChanges_def)
  also have "\<dots> = (if flagged ?paths c then [formattingInstance c] else [])"
    using assms(1,2) by (rule formatting_for_path)
  finally show ?thesis
    using p by (simp add: flagged_def isFormattingOnly_iff formattingInstance_def)
qed

theorem formatting_only_instances_witness:
  "filter (\<lambda>i. ntype i = formatting_only \<and> nfile i = filePath whitespaceDiff)
     (noiseRun [makeDiff ''app.ts'' [] []] [whitespaceDiff])
     = [formattingInstance whitespaceDiff]
   \<and> filter (\<lambda>i. ntype i = formatting_only \<and> nfile i = filePath semanticDiff)
     (noiseRun [makeDiff ''app.ts'' [] []] [semanticDiff]) = []"
proof -
  let ?G = "[makeDiff ''app.ts'' [] []]"
  let ?w = "\<lparr> nd_matchResult = matchFiles ?G [whitespaceDiff],
              migrationDiffs = [whitespaceDiff], detectionResults = [] \<rparr>"
  let ?s = "\<lparr> nd_matchResult = matchFiles ?G [semanticDiff],
              migrationDiffs = [semanticDiff], detectionResults = [] \<rparr>"
  have w1: "distinct (map filePath (migrationDiffs ?w))"
    and w2: "whitespaceDiff \<in> set (migrationDiffs ?w)"
    and s1: "distinct (map filePath (migrationDiffs ?s))"
    and s2: "semanticDiff \<in> set (migrationDiffs ?s)"
    by simp_all
  have mw: "matchFiles ?G [whitespaceDiff]
      = \<lparr> matched = [\<lparr> golden = makeDiff ''app.ts'' [] [], migration = whitespaceDiff \<rparr>],
          missedFiles = [], extraFiles = [] \<rparr>"
    by code_simp
  have ms: "matchFiles ?G [semanticDiff]
      = \<lparr> matched = [\<lparr> golden = makeDiff ''app.ts'' [] [], migration = semanticDiff \<rparr>],
          missedFiles = [], extraFiles = [] \<rparr>"
    by code_simp
  have w3: "whitespaceDiff \<in> migration ` set (matched (nd_matchResult ?w))"
    by (simp add: mw)
  have s3: "semanticDiff \<in> migration ` set (matched (nd_matchResult ?s))"
    by (simp add: ms)
  have cw: "removeWhitespace ''  const x = 1;'' = removeWhitespace ''const x = 1;''"
    by (simp add: removeWhitespace_def isSpace_def)
  have cs: "removeWhitespace ''const y = 2;'' \<noteq> removeWhitespace ''const x = 1;''"
    by (simp add: removeWhitespace_def isSpace_def)
  have "filter (\<lambda>i. ntype i = formatting_only \<and> nfile i = filePath whitespaceDiff)
     (detectNoise ?w) = [formattingInstance whitespaceDiff]"
    using formatting_only_instances [OF w1 w2 w3] cw
    by (simp add: whitespaceDiff_def makeDiff_def makeLine_def formattingInstance_def)
  moreover have "filter (\<lambda>i. ntype i = formatting_only \<and> nfile i = filePath semanticDiff)
     (detectNoise ?s) = []"
    using formatting_only_instances [OF s1 s2 s3] cs
    by (simp add: semanticDiff_def makeDiff_def makeLine_def)
  ultimately show ?thesis
    by (simp add: noiseRun_def)
qed

theorem formatting_only_counterexample:
  "matched (matchFiles [makeDiff ''app.ts'' [] []] [makeDiff ''app.ts'' [] []])
     = [\<lparr> golden = makeDiff ''app.ts'' [] [], migration = makeDiff ''app.ts'' [] [] \<rparr>]
   \<and> sort (map (removeWhitespace \<circ> content) (addedLines (makeDiff ''app.ts'' [] [])))
     = sort (map (removeWhitespace \<circ> content) (removedLines (makeDiff ''app.ts'' [] [])))
   \<and> noiseRun [makeDiff ''app.ts'' [] []] [makeDiff ''app.ts'' [] []] = []
   \<and> matched (matchFiles [makeDiff ''app.ts'' [] []] [whitespaceDiff, trailingDiff])
     = [\<lparr> golden = makeDiff ''app.ts'' [] [], migration = trailingDiff \<rparr>]
   \<and> noiseRun [makeDiff ''app.ts'' [] []] [whitespaceDiff, trailingDiff]
     = [formattingInstance whitespaceDiff, formattingInstance trailingDiff]
   \<and> nfile (formattingInstance whitespaceDiff) = filePath trailingDiff"
  by code_simp

text \<open>
  C5, at a failing input. A candidate snapshot file, which the matcher excludes, with an
  added line that holds a debug print and a placeholder token: the match result is empty,
  and the noise scanner still emits an \<^verbatim>\<open>artifact\<close> and a \<^verbatim>\<open>placeholder_token\<close> instance
  for that file.
\<close>

theorem excluded_file_still_scanned:
  "isExcluded (filePath snapshotDiff)
   \<and> matchFiles [] [snapshotDiff] = \<lparr> matched = [], missedFiles = [], extraFiles = [] \<rparr>
   \<and> noiseRun [] [snapshotDiff] =
       [\<lparr> ntype = artifact, nfile = ''src/__snapshots__/App.test.tsx.snap'', nline = Some 3,
          description = ''Artifact detected: console.log(1); // FIXME'',
          penalty = 5 / 100 \<rparr>,
        \<lparr> ntype = placeholder_token, nfile = ''src/__snapshots__/App.test.tsx.snap'',
          nline = Some 3,
          description = ''Placeholder token detected: console.log(1); // FIXME'',
          penalty = 5 / 100 \<rparr>]"
  by code_simp



section \<open>Theme detector\<close>

lemma matchFiles_untouched:
  assumes "\<not> isExcluded (filePath g)" and "npath g \<notin> npath ` set (kept cands)"
  shows "matched (matchFiles [g] cands) = [] \<and> missedFiles (matchFiles [g] cands) = [g]"
  using assms by (simp add: matchFiles_eq kept_def)

lemma matchFiles_touched:
  assumes "\<not> isExcluded (filePath g)" and "\<not> isExcluded (filePath c)"
    and "npath c = npath g"
  shows "matched (matchFiles [g] [c]) = [\<lparr> golden = g, migration = c \<rparr>]
     \<and> missedFiles (matchFiles [g] [c]) = []"
  using assms by (simp add: matchFiles_eq kept_def npath_def)

text \<open>
  C6 (amended). The theme detector judges applicability on the golden record alone: when
  the removed lines of the golden record hold no \<^verbatim>\<open>theme="dark"\<close>, the outcome is
  \<^verbatim>\<open>NOT_APPLICABLE\<close> whatever the candidate is, present or absent. When the golden record
  removes it and the candidate has a record for the file that removes no \<^verbatim>\<open>theme="dark"\<close>,
  in particular a record with no added and no removed line, the outcome is \<^verbatim>\<open>MISSING\<close>.
  When the golden record removes it and the candidate makes no change to the file, so
  that it has no record for it, the matcher lists the golden record as missed, the driver
  runs the detector with an absent candidate, and the outcome is \<^verbatim>\<open>FILE_MISSING\<close>. When
  both remove it and the added lines of the candidate hold it again, the outcome is
  \<^verbatim>\<open>INCORRECT\<close>.
\<close>

theorem theme_dark_outcomes:
  "(\<not> hasThemeDark (removedLines g) \<longrightarrow> status (detect g m) = NOT_APPLICABLE)
   \<and> (hasThemeDark (removedLines g) \<and> \<not> hasThemeDark (removedLines c) \<longrightarrow>
        status (detect g (Some c)) = MISSING)
   \<and> (hasThemeDark (removedLines g) \<and> addedLines c = [] \<and> removedLines c = [] \<longrightarrow>
        status (detect g (Some c)) = MISSING)
   \<and> (hasThemeDark (removedLines g) \<and> hasThemeDark (removedLines c)
        \<and> hasThemeDark (addedLines c) \<longrightarrow>
        status (detect g (Some c)) = INCORRECT)
   \<and> (hasThemeDark (removedLines g) \<longrightarrow> status (detect g None) = FILE_MISSING)
   \<and> pd_detect pattern g m goldenAST migrationAST = detect g m
   \<and> (\<not> isExcluded (filePath g) \<and> npath g \<notin> npath ` set (kept cands) \<longrightarrow>
        runDetectors ga ma xa [pattern] (matchFiles [g] cands) = [detect g None])
   \<and> (\<not> isExcluded (filePath g) \<and> \<not> isExcluded (filePath c) \<and> npath c = npath g \<longrightarrow>
        runDetectors ga ma xa [pattern] (matchFiles [g] [c]) = [detect g (Some c)])"
proof -
  have a: "(\<not> hasThemeDark (removedLines g) \<longrightarrow> status (detect g m) = NOT_APPLICABLE)
   \<and> (hasThemeDark (removedLines g) \<and> \<not> hasThemeDark (removedLines c) \<longrightarrow>
        status (detect g (Some c)) = MISSING)
   \<and> (hasThemeDark (removedLines g) \<and> addedLines c = [] \<and> removedLines c = [] \<longrightarrow>
        status (detect g (Some c)) = MISSING)
   \<and> (hasThemeDark (removedLines g) \<and> hasThemeDark (removedLines c)
        \<and> hasThemeDark (addedLines c) \<longrightarrow>
        status (detect g (Some c)) = INCORRECT)
   \<and> (hasThemeDark (removedLines g) \<longrightarrow> status (detect g None) = FILE_MISSING)"
    by (cases m) (simp_all add: detect_def Let_def hasThemeDark_def)
  have b: "pd_detect pattern g m goldenAST migrationAST = detect g m"
    by (simp add: pattern_def)
  have p: "\<And>x y u v. pd_detect pattern x y u v = detect x y"
    by (simp add: pattern_def)
  have d: "\<not> isExcluded (filePath g) \<and> npath g \<notin> npath ` set (kept cands) \<longrightarrow>
        runDetectors ga ma xa [pattern] (matchFiles [g] cands) = [detect g None]"
    using matchFiles_untouched [of g cands] by (auto simp: runDetectors_def p)
  have e: "\<not> isExcluded (filePath g) \<and> \<not> isExcluded (filePath c) \<and> npath c = npath g \<longrightarrow>
        runDetectors ga ma xa [pattern] (matchFiles [g] [c]) = [detect g (Some c)]"
    using matchFiles_touched [of g c] by (auto simp: runDetectors_def p)
  from a b d e show ?thesis
    by simp
qed

theorem theme_dark_outcomes_witness:
  "hasThemeDark (removedLines pageDark) \<and> \<not> hasThemeDark (removedLines pageLight)
   \<and> status (detect pageLight (Some pageReadded)) = NOT_APPLICABLE
   \<and> status (detect pageLight None) = NOT_APPLICABLE
   \<and> status (detect pageDark (Some (makeDiff ''test.tsx'' [] []))) = MISSING
   \<and> status (detect pageDark (Some pageLight)) = MISSING
   \<and> status (detect pageDark (Some pageReadded)) = INCORRECT
   \<and> status (detect pageDark None) = FILE_MISSING
   \<and> map status (runDetectors noAST noAST noAST [pattern] (matchFiles [pageDark] []))
       = [FILE_MISSING]
   \<and> map status (runDetectors noAST noAST noAST [pattern]
        (matchFiles [pageDark] [makeDiff ''test.tsx'' [] []])) = [MISSING]"
proof -
  have d: "hasThemeDark (removedLines pageDark)"
    by code_simp
  have l: "\<not> hasThemeDark (removedLines pageLight)"
    by code_simp
  have r: "hasThemeDark (removedLines pageReadded)" "hasThemeDark (addedLines pageReadded)"
    by code_simp+
  have e: "addedLines (makeDiff ''test.tsx'' [] []) = []"
      "removedLines (makeDiff ''test.tsx'' [] []) = []"
    by (simp_all add: makeDiff_def)
  have x: "\<not> isExcluded (filePath pageDark)"
      "\<not> isExcluded (filePath (makeDiff ''test.tsx'' [] []))"
      "npath (makeDiff ''test.tsx'' [] []) = npath pageDark"
    by code_simp+
  have k: "npath pageDark \<notin> npath ` set (kept [])"
    by (simp add: kept_def)
  have 1: "status (detect pageLight (Some pageReadded)) = NOT_APPLICABLE"
    using theme_dark_outcomes [of pageLight "Some pageReadded" pageReadded] l by simp
  have 2: "status (detect pageLight None) = NOT_APPLICABLE"
    using theme_dark_outcomes [of pageLight None pageReadded] l by simp
  have 3: "status (detect pageDark (Some (makeDiff ''test.tsx'' [] []))) = MISSING"
    using theme_dark_outcomes [of pageDark None "makeDiff ''test.tsx'' [] []"] d e by simp
  have 4: "status (detect pageDark (Some pageLight)) = MISSING"
    using theme_dark_outcomes [of pageDark None pageLight] d l by simp
  have 5: "status (detect pageDark (Some pageReadded)) = INCORRECT"
    using theme_dark_outcomes [of pageDark None pageReadded] d r by simp
  have 6: "status (detect pageDark None) = FILE_MISSING"
    using theme_dark_outcomes [of pageDark None pageReadded] d by simp
  have 7: "runDetectors noAST noAST noAST [pattern] (matchFiles [pageDark] [])
      = [detect pageDark None]"
    using theme_dark_outcomes
      [of pageDark None pageReadded _ _ "[]" noAST noAST noAST] x(1) k
    by simp
  have 8: "runDetectors noAST noAST noAST [pattern]
        (matchFiles [pageDark] [makeDiff ''test.tsx'' [] []])
      = [detect pageDark (Some (makeDiff ''test.tsx'' [] []))]"
    using theme_dark_outcomes
      [of pageDark None "makeDiff ''test.tsx'' [] []" _ _ "[]" noAST noAST noAST] x
    by simp
  from d l 1 2 3 4 5 6 show ?thesis
    by (simp add: 7 8)
qed

theorem no_candidate_record_counterexample:
  "hasThemeDark (removedLines pageDark)
   \<and> matched (matchFiles [pageDark] []) = []
   \<and> missedFiles (matchFiles [pageDark] []) = [pageDark]
   \<and> map status (runDetectors noAST noAST noAST [pattern] (matchFiles [pageDark] []))
       = [FILE_MISSING]
   \<and> status (detect pageDark None) = FILE_MISSING
   \<and> FILE_MISSING \<noteq> MISSING"
  by code_simp


section \<open>Detector registry\<close>

lemma catalog_register:
  "patterns < length h \<Longrightarrow> catalog (registerPattern p h) = catalog h @ [p]"
  by (simp add: catalog_def registerPattern_def)

lemma length_register [simp]: "length (registerPattern p h) = length h"
  by (simp add: registerPattern_def)

lemma catalog_register_all:
  "patterns < length h \<Longrightarrow>
     catalog (foldl (\<lambda>s p. registerPattern p s) h ps) = catalog h @ ps
     \<and> patterns < length (foldl (\<lambda>s p. registerPattern p s) h ps)"
proof (induction ps arbitrary: h)
  case Nil
  then show ?case by simp
next
  case (Cons p ps)
  have "patterns < length (registerPattern p h)"
    using Cons.prems by simp
  from Cons.IH [OF this] show ?case
    using Cons.prems by (simp add: catalog_register)
qed

lemma returned_get: "patterns < length h \<Longrightarrow> returned (getPatterns h) = catalog h"
  by (simp add: returned_def getPatterns_def catalog_def nth_append)

text \<open>
  C9. With the module loaded (its array allocated): \<^verbatim>\<open>registerPattern\<close> appends the
  definition to the catalog; after the definitions of a list are registered one by one,
  \<^verbatim>\<open>getPatterns\<close> returns the old catalog followed by the list, in order; after
  \<^verbatim>\<open>clearPatterns\<close>, \<^verbatim>\<open>getPatterns\<close> returns the empty list; the array \<^verbatim>\<open>getPatterns\<close>
  returns is a new one, at an address other than the catalog's, with the catalog's
  contents, and changing it in place leaves the catalog, and what a later \<^verbatim>\<open>getPatterns\<close>
  returns, unchanged. (\<^verbatim>\<open>getPatternsByComplexity\<close>, the one other function of the module,
  returns a new array too and leaves the catalog as it is.)
\<close>

theorem registry_contract:
  assumes "patterns < length h"
  shows "catalog (registerPattern p h) = catalog h @ [p]
     \<and> returned (getPatterns (foldl (\<lambda>s p. registerPattern p s) h ps)) = catalog h @ ps
     \<and> returned (getPatterns (foldl (\<lambda>s p. registerPattern p s) (clearPatterns h) ps)) = ps
     \<and> returned (getPatterns (clearPatterns h)) = []
     \<and> returned (getPatterns h) = catalog h
     \<and> fst (getPatterns h) \<noteq> patterns
     \<and> fst (getPatterns h) \<notin> {..<length h}
     \<and> catalog (snd (getPatterns h)) = catalog h
     \<and> catalog (mutate (fst (getPatterns h)) f (snd (getPatterns h))) = catalog h
     \<and> returned (getPatterns (mutate (fst (getPatterns h)) f (snd (getPatterns h))))
         = catalog h
     \<and> returned (fst (getPatterns h), mutate (fst (getPatterns h)) f (snd (getPatterns h)))
         = f (catalog h)
     \<and> returned (getPatternsByComplexity t h) = filter (\<lambda>p. complexity p = t) (catalog h)
     \<and> catalog (snd (getPatternsByComplexity t h)) = catalog h"
proof -
  have c: "patterns < length (clearPatterns h)" "catalog (clearPatterns h) = []"
    using assms by (simp_all add: clearPatterns_def catalog_def)
  have 1: "catalog (registerPattern p h) = catalog h @ [p]"
    using assms by (rule catalog_register)
  have 2: "returned (getPatterns (foldl (\<lambda>s p. registerPattern p s) h ps)) = catalog h @ ps"
    using catalog_register_all [OF assms, of ps] by (simp add: returned_get)
  have 3: "returned (getPatterns (foldl (\<lambda>s p. registerPattern p s) (clearPatterns h) ps)) = ps"
    using catalog_register_all [OF c(1), of ps] c(2) by (simp add: returned_get)
  have 4: "returned (getPatterns (clearPatterns h)) = []"
    using c by (simp add: returned_get)
  have 5: "returned (getPatterns h) = catalog h"
    using assms by (rule returned_get)
  have 6: "fst (getPatterns h) \<noteq> patterns" "fst (getPatterns h) \<notin> {..<length h}"
    using assms by (simp_all add: getPatterns_def)
  have 7: "catalog (snd (getPatterns h)) = catalog h"
    using assms by (simp add: getPatterns_def catalog_def nth_append)
  let ?h' = "mutate (fst (getPatterns h)) f (snd (getPatterns h))"
  have 8: "catalog ?h' = catalog h"
    using assms by (simp add: getPatterns_def catalog_def mutate_def nth_append)
  have "patterns < length ?h'"
    using assms by (simp add: getPatterns_def mutate_def)
  then have 9: "returned (getPatterns ?h') = catalog h"
    using 8 by (simp add: returned_get)
  have 10: "returned (fst (getPatterns h), ?h') = f (catalog h)"
    using assms by (simp add: getPatterns_def catalog_def mutate_def returned_def nth_append)
  have 11: "returned (getPatternsByComplexity t h) = filter (\<lambda>p. complexity p = t) (catalog h)"
      "catalog (snd (getPatternsByComplexity t h)) = catalog h"
    using assms
    by (simp_all add: getPatternsByComplexity_def catalog_def returned_def nth_append)
  from 1 2 3 4 5 6 7 8 9 10 11 show ?thesis
    by blast
qed

theorem registry_contract_witness:
  "patterns < length moduleLoaded
   \<and> catalog (registerPattern pattern moduleLoaded) = [pattern]
   \<and> returned (getPatterns
        (foldl (\<lambda>s p. registerPattern p s) moduleLoaded [pattern, secondPattern]))
       = [pattern, secondPattern]
   \<and> returned (getPatterns (clearPatterns (registerPattern pattern moduleLoaded))) = []
   \<and> catalog (mutate (fst (getPatterns (registerPattern pattern moduleLoaded))) (\<lambda>xs. [])
        (snd (getPatterns (registerPattern pattern moduleLoaded)))) = [pattern]"
proof -
  have w: "patterns < length moduleLoaded"
    by (simp add: patterns_def moduleLoaded_def)
  have e: "catalog moduleLoaded = []"
    by (simp add: catalog_def patterns_def moduleLoaded_def)
  have w': "patterns < length (registerPattern pattern moduleLoaded)"
    using w by simp
  have e': "catalog (registerPattern pattern moduleLoaded) = [pattern]"
    using registry_contract [OF w, of pattern] e by simp
  show ?thesis
    using registry_contract [OF w, of pattern "[pattern, secondPattern]"]
      registry_contract [OF w', of _ _ "\<lambda>xs. []"] w e e'
    by simp
qed


end
